theory Spec2Isabelle
  imports Complex_Main "HOL-Library.Word" "HOL-Library.Log_Nat"
begin

unbundle bit_operations_syntax

section \<open>Machine types\<close>

text \<open>
  The C++ integer types of the sources. \<open>int\<close>, \<open>int32_t\<close> and \<open>unsigned int\<close> are 32-bit
  words, \<open>uint64_t\<close>, \<open>int64_t\<close> and \<open>size_t\<close> are 64-bit words; a signed type is read with
  \<open>sint\<close>, an unsigned one with \<open>unat\<close>. \<open>ImDrawIdx\<close> is ImGui's default
  \<open>unsigned short\<close> (the index buffer is created with \<open>IndexType::USHORT\<close>).
\<close>

type_synonym int32 = "32 word"
type_synonym uint32 = "32 word"
type_synonym int64 = "64 word"
type_synonym uint64 = "64 word"
type_synonym ImDrawIdx = "16 word"

text \<open>An opaque \<open>GLFWwindow*\<close>: the address.\<close>

type_synonym GLFWwindow_ptr = nat

text \<open>
  A C++ \<open>double\<close> (IEEE 754 binary64) with its special values. A finite value carries the
  real number it denotes; the two zeros are one value (no operation of the sources tells
  them apart). Plus infinity is one value, so \<open>a \<noteq> kDoubleInf\<close> in HOL is the C++
  comparison \<open>a != kDoubleInf\<close>, also when \<open>a\<close> is a NaN.
\<close>

datatype double = Finite real | PosInf | NegInf | NaN

definition kDoubleInf :: double where
  "kDoubleInf = PosInf"

text \<open>
  The result of an IEEE 754 operation is the exact result rounded to the format, to the
  nearest value and to the even one of two nearest. For a format with \<open>p\<close> bits of
  precision and largest exponent \<open>emax\<close>: a real \<open>x\<close> with \<open>2^e \<le> |x| < 2^(e+1)\<close> lies on
  the grid of step \<open>2^(e-p+1)\<close>, the exponent \<open>e\<close> being no less than \<open>1 - emax\<close>
  (subnormal values share the grid of the smallest normal exponent); \<open>x\<close> goes to the
  nearest grid point, and to an infinity when that is \<open>2^(emax+1)\<close> or more.
\<close>

definition pow2 :: "int \<Rightarrow> real" where
  "pow2 k = (if 0 \<le> k then 2 ^ nat k else 1 / 2 ^ nat (- k))"

text \<open>The \<open>e\<close> with \<open>2^e \<le> x < 2^(e+1)\<close>, for \<open>x > 0\<close>.\<close>

definition floor_log2 :: "real \<Rightarrow> int" where
  "floor_log2 x = (if 1 \<le> x then bitlen \<lfloor>x\<rfloor> - 1 else - bitlen (\<lceil>1 / x\<rceil> - 1))"

definition round_half_even :: "real \<Rightarrow> int" where
  "round_half_even m =
     (let f = \<lfloor>m\<rfloor>; r = m - of_int f
      in if r < 1 / 2 then f else if 1 / 2 < r then f + 1 else if even f then f else f + 1)"

definition ieee_round :: "nat \<Rightarrow> int \<Rightarrow> real \<Rightarrow> double" where
  "ieee_round p emax x =
     (if x = 0 then Finite 0
      else let e = max (floor_log2 \<bar>x\<bar>) (1 - emax);
               q = pow2 (e - int p + 1);
               y = of_int (round_half_even (\<bar>x\<bar> / q)) * q
           in if pow2 (emax + 1) \<le> y then (if 0 < x then PosInf else NegInf)
              else Finite (if 0 < x then y else - y))"

definition round_double :: "real \<Rightarrow> double" where
  "round_double = ieee_round 53 1023"

text \<open>The C++ \<open>a - b\<close> on doubles.\<close>

fun dsub :: "double \<Rightarrow> double \<Rightarrow> double" where
  "dsub NaN b = NaN"
| "dsub a NaN = NaN"
| "dsub (Finite a) (Finite b) = round_double (a - b)"
| "dsub (Finite a) PosInf = NegInf"
| "dsub (Finite a) NegInf = PosInf"
| "dsub PosInf PosInf = NaN"
| "dsub PosInf b = PosInf"
| "dsub NegInf NegInf = NaN"
| "dsub NegInf b = NegInf"

section \<open>Constants of glfw3.h\<close>

text \<open>
  The sources include \<open>GLFW/glfw3.h\<close>, which is not part of the repository. These are the
  values of that header for the names the sources use.
\<close>

definition GLFW_RELEASE :: int32 where "GLFW_RELEASE = 0"
definition GLFW_PRESS :: int32 where "GLFW_PRESS = 1"
definition GLFW_REPEAT :: int32 where "GLFW_REPEAT = 2"

definition GLFW_KEY_CAPS_LOCK :: int32 where "GLFW_KEY_CAPS_LOCK = 280"
definition GLFW_KEY_NUM_LOCK :: int32 where "GLFW_KEY_NUM_LOCK = 282"
definition GLFW_KEY_LEFT_SHIFT :: int32 where "GLFW_KEY_LEFT_SHIFT = 340"
definition GLFW_KEY_LEFT_CONTROL :: int32 where "GLFW_KEY_LEFT_CONTROL = 341"
definition GLFW_KEY_LEFT_ALT :: int32 where "GLFW_KEY_LEFT_ALT = 342"
definition GLFW_KEY_LEFT_SUPER :: int32 where "GLFW_KEY_LEFT_SUPER = 343"
definition GLFW_KEY_RIGHT_SHIFT :: int32 where "GLFW_KEY_RIGHT_SHIFT = 344"
definition GLFW_KEY_RIGHT_CONTROL :: int32 where "GLFW_KEY_RIGHT_CONTROL = 345"
definition GLFW_KEY_RIGHT_ALT :: int32 where "GLFW_KEY_RIGHT_ALT = 346"
definition GLFW_KEY_RIGHT_SUPER :: int32 where "GLFW_KEY_RIGHT_SUPER = 347"
definition GLFW_KEY_LAST :: int32 where "GLFW_KEY_LAST = 348"

definition GLFW_MOD_SHIFT :: int32 where "GLFW_MOD_SHIFT = 0x0001"
definition GLFW_MOD_CONTROL :: int32 where "GLFW_MOD_CONTROL = 0x0002"
definition GLFW_MOD_ALT :: int32 where "GLFW_MOD_ALT = 0x0004"
definition GLFW_MOD_SUPER :: int32 where "GLFW_MOD_SUPER = 0x0008"
definition GLFW_MOD_CAPS_LOCK :: int32 where "GLFW_MOD_CAPS_LOCK = 0x0010"
definition GLFW_MOD_NUM_LOCK :: int32 where "GLFW_MOD_NUM_LOCK = 0x0020"

section \<open>glfw_input.h: the data model\<close>

text \<open>\<open>MouseButtonMask\<close> and \<open>ModKeyMask\<close>: a struct with the one field \<open>int value\<close>.\<close>

record MouseButtonMask =
  mb_value :: int32

record ModKeyMask =
  mk_value :: int32

text \<open>The payload structs of \<open>Event\<close>.\<close>

record CursorPos =
  cp_x :: double
  cp_y :: double
  cp_xoffset :: double
  cp_yoffset :: double
  cp_buttons :: MouseButtonMask
  cp_mods :: ModKeyMask

record MouseButton =
  mbt_button :: int32
  mbt_action :: int32
  mbt_mods :: ModKeyMask

record Scroll =
  sc_xoffset :: double
  sc_yoffset :: double
  sc_mods :: ModKeyMask

record Key =
  k_key :: int32
  k_scancode :: int32
  k_action :: int32
  k_mods :: ModKeyMask

text \<open>The anonymous union of \<open>Event\<close>, one constructor per member.\<close>

datatype EventUnion =
    U_focused int32
  | U_entered int32
  | U_cursor_pos CursorPos
  | U_mouse_button MouseButton
  | U_scroll Scroll
  | U_key Key
  | U_charval uint32

definition kNone :: uint64 where "kNone = 0"
definition kFocus :: uint64 where "kFocus = 0x1"
definition kEnter :: uint64 where "kEnter = 0x2"
definition kCursorPos :: uint64 where "kCursorPos = 0x4"
definition kMouseButton :: uint64 where "kMouseButton = 0x8"
definition kScroll :: uint64 where "kScroll = 0x10"
definition kKey :: uint64 where "kKey = 0x20"
definition kChar :: uint64 where "kChar = 0x40"

record Event =
  e_type :: uint64
  e_window :: GLFWwindow_ptr
  child_wants_capture :: bool
  e_union :: EventUnion

text \<open>
  \<open>KeyboardState\<close>: the vector \<open>pressed_event_index\<close>, the event index when the key was
  pressed, 0 when released. The constructor makes \<open>max_key + 1\<close> zero entries; a negative
  \<open>max_key + 1\<close> converted to \<open>size_t\<close> is a size no vector can have, and the constructor
  throws (\<open>None\<close>). For the largest \<open>int32_t\<close> the sum \<open>max_key + 1\<close> overflows, which C++
  leaves undefined; the compiled sum wraps to the smallest \<open>int32_t\<close>, and the constructor
  throws as well. Running out of memory is not modelled.
\<close>

record KeyboardState =
  pressed_event_index :: "uint64 list"

definition KeyboardState_ctor :: "int32 \<Rightarrow> KeyboardState option" where
  "KeyboardState_ctor max_key =
     (if 0 \<le> sint max_key + 1 \<and> sint max_key + 1 < 2 ^ 31
      then Some \<lparr>pressed_event_index = replicate (nat (sint max_key + 1)) 0\<rparr>
      else None)"

record State =
  event_index :: uint64
  events :: "Event list"
  keys :: KeyboardState
  all_events :: "Event list"
  all_keys :: KeyboardState
  mod_keys :: ModKeyMask
  mouse_x :: double
  mouse_y :: double
  mouse_buttons :: MouseButtonMask

text \<open>\<open>State()\<close>: both key tables have \<open>GLFW_KEY_LAST + 1\<close> entries.\<close>

definition State_ctor :: State where
  "State_ctor =
     \<lparr>event_index = 0,
      events = [],
      keys = \<lparr>pressed_event_index = replicate 349 0\<rparr>,
      all_events = [],
      all_keys = \<lparr>pressed_event_index = replicate 349 0\<rparr>,
      mod_keys = \<lparr>mk_value = 0\<rparr>,
      mouse_x = kDoubleInf,
      mouse_y = kDoubleInf,
      mouse_buttons = \<lparr>mb_value = 0\<rparr>\<rparr>"

section \<open>glfw_input_impl.h: masks and the keyboard table\<close>

text \<open>The templates \<open>HasBits\<close>, \<open>SetBits\<close>, \<open>ClearBits\<close> on the \<open>value\<close> field.\<close>

definition HasBits :: "int32 \<Rightarrow> int32 \<Rightarrow> bool" where
  "HasBits v bits = (v AND bits = bits)"

definition SetBits :: "int32 \<Rightarrow> int32 \<Rightarrow> int32" where
  "SetBits v bits = v OR bits"

definition ClearBits :: "int32 \<Rightarrow> int32 \<Rightarrow> int32" where
  "ClearBits v bits = v AND NOT bits"

text \<open>
  \<open>1 << glfw_mouse_button\<close>. C++ defines the shift for counts 0 to 31 (GLFW's buttons are
  0 to 7, as the header says). For any other count the shift is undefined in C++; the
  value here is the one the shift instructions of x86-64 and AArch64 give, which take the
  count modulo 32. No property below depends on it.
\<close>

definition ButtonToBits :: "int32 \<Rightarrow> int32" where
  "ButtonToBits glfw_mouse_button = push_bit (unat glfw_mouse_button mod 32) 1"

definition HasGlfwButton :: "MouseButtonMask \<Rightarrow> int32 \<Rightarrow> bool" where
  "HasGlfwButton m glfw_mouse_button = HasBits (mb_value m) (ButtonToBits glfw_mouse_button)"

text \<open>
  \<open>key < pressed_event_index.size()\<close> compares an \<open>int32_t\<close> with a \<open>size_t\<close>: the key is
  converted to \<open>size_t\<close> (sign-extended to 64 bits and read unsigned), so a negative key is
  a very large index.
\<close>

definition key_as_size_t :: "int32 \<Rightarrow> nat" where
  "key_as_size_t key = unat (scast key :: 64 word)"

definition PressedEventIndex :: "KeyboardState \<Rightarrow> int32 \<Rightarrow> int64" where
  "PressedEventIndex ks key =
     (if key_as_size_t key < length (pressed_event_index ks)
      then pressed_event_index ks ! key_as_size_t key
      else 0)"

definition IsPressed :: "KeyboardState \<Rightarrow> int32 \<Rightarrow> bool" where
  "IsPressed ks key = (PressedEventIndex ks key \<noteq> 0)"

definition SetKeyEventIndex :: "KeyboardState \<Rightarrow> int32 \<Rightarrow> uint64 \<Rightarrow> KeyboardState" where
  "SetKeyEventIndex ks key idx =
     (if key_as_size_t key < length (pressed_event_index ks)
      then ks\<lparr>pressed_event_index := (pressed_event_index ks)[key_as_size_t key := idx]\<rparr>
      else ks)"

text \<open>
  \<open>Axis\<close> stores the two 64-bit indices in \<open>const int\<close> locals: each is cut to its low 32
  bits and compared as a signed value.
\<close>

definition Axis :: "KeyboardState \<Rightarrow> int32 \<Rightarrow> int32 \<Rightarrow> int" where
  "Axis ks key_minus key_plus =
     (let state_minus = (ucast (PressedEventIndex ks key_minus) :: int32);
          state_plus = (ucast (PressedEventIndex ks key_plus) :: int32)
      in if sint state_minus > sint state_plus then - 1
         else if sint state_plus > sint state_minus then 1
         else 0)"

text \<open>
  \<open>operator[]\<close> outside the vector is undefined in C++: a fault (\<open>OutOfBounds\<close>) in the
  checked operations below. First the two table operations with the vector access
  checked.
\<close>

datatype fault = OutOfBounds

definition vec_read :: "'a list \<Rightarrow> nat \<Rightarrow> fault + 'a" where
  "vec_read xs i = (if i < length xs then Inr (xs ! i) else Inl OutOfBounds)"

definition vec_write :: "'a list \<Rightarrow> nat \<Rightarrow> 'a \<Rightarrow> fault + 'a list" where
  "vec_write xs i v = (if i < length xs then Inr (xs[i := v]) else Inl OutOfBounds)"

definition PressedEventIndex_checked :: "KeyboardState \<Rightarrow> int32 \<Rightarrow> fault + int64" where
  "PressedEventIndex_checked ks key =
     (if key_as_size_t key < length (pressed_event_index ks)
      then vec_read (pressed_event_index ks) (key_as_size_t key)
      else Inr 0)"

definition SetKeyEventIndex_checked ::
  "KeyboardState \<Rightarrow> int32 \<Rightarrow> uint64 \<Rightarrow> fault + KeyboardState" where
  "SetKeyEventIndex_checked ks key idx =
     (if key_as_size_t key < length (pressed_event_index ks)
      then (case vec_write (pressed_event_index ks) (key_as_size_t key) idx of
              Inl f \<Rightarrow> Inl f
            | Inr v \<Rightarrow> Inr (ks\<lparr>pressed_event_index := v\<rparr>))
      else Inr ks)"

section \<open>glfw_input_impl.h: the Handler\<close>

text \<open>
  \<open>Handler<Child>\<close> is a template over the child handler. The child is a state of type
  \<open>'c\<close> and its eight member functions; each callback returns the capture flag and the
  child's new state.
\<close>

record 'c Child =
  c_ClearEvents :: "'c \<Rightarrow> 'c"
  c_OnGlfwWindowFocus :: "GLFWwindow_ptr \<Rightarrow> int32 \<Rightarrow> 'c \<Rightarrow> bool \<times> 'c"
  c_OnGlfwCursorEnter :: "GLFWwindow_ptr \<Rightarrow> int32 \<Rightarrow> 'c \<Rightarrow> bool \<times> 'c"
  c_OnGlfwCursorPos :: "GLFWwindow_ptr \<Rightarrow> double \<Rightarrow> double \<Rightarrow> 'c \<Rightarrow> bool \<times> 'c"
  c_OnGlfwMouseButton :: "GLFWwindow_ptr \<Rightarrow> int32 \<Rightarrow> int32 \<Rightarrow> int32 \<Rightarrow> 'c \<Rightarrow> bool \<times> 'c"
  c_OnGlfwScroll :: "GLFWwindow_ptr \<Rightarrow> double \<Rightarrow> double \<Rightarrow> 'c \<Rightarrow> bool \<times> 'c"
  c_OnGlfwKey :: "GLFWwindow_ptr \<Rightarrow> int32 \<Rightarrow> int32 \<Rightarrow> int32 \<Rightarrow> int32 \<Rightarrow> 'c \<Rightarrow> bool \<times> 'c"
  c_OnGlfwChar :: "GLFWwindow_ptr \<Rightarrow> uint32 \<Rightarrow> 'c \<Rightarrow> bool \<times> 'c"

text \<open>\<open>NoOpHandler\<close>: no state, never captures.\<close>

definition NoOpHandler :: "unit Child" where
  "NoOpHandler =
     \<lparr>c_ClearEvents = (\<lambda>c. c),
      c_OnGlfwWindowFocus = (\<lambda>w f c. (False, c)),
      c_OnGlfwCursorEnter = (\<lambda>w e c. (False, c)),
      c_OnGlfwCursorPos = (\<lambda>w x y c. (False, c)),
      c_OnGlfwMouseButton = (\<lambda>w b a m c. (False, c)),
      c_OnGlfwScroll = (\<lambda>w x y c. (False, c)),
      c_OnGlfwKey = (\<lambda>w k s a m c. (False, c)),
      c_OnGlfwChar = (\<lambda>w u c. (False, c))\<rparr>"

record 'c Handler =
  child :: 'c
  state :: State

definition Handler_ctor :: "'c \<Rightarrow> 'c Handler" where
  "Handler_ctor c0 = \<lparr>child = c0, state = State_ctor\<rparr>"

definition ClearEvents :: "'c Child \<Rightarrow> 'c Handler \<Rightarrow> 'c Handler" where
  "ClearEvents ch h =
     \<lparr>child = c_ClearEvents ch (child h),
      state = (state h)\<lparr>events := [], all_events := []\<rparr>\<rparr>"

text \<open>
  The tail every callback shares: \<open>if (!child_wants_capture) state_.events.push_back(e);
  state_.all_events.push_back(e);\<close>
\<close>

definition push_event :: "Event \<Rightarrow> State \<Rightarrow> State" where
  "push_event e s =
     (let s1 = (if \<not> child_wants_capture e then s\<lparr>events := events s @ [e]\<rparr> else s)
      in s1\<lparr>all_events := all_events s1 @ [e]\<rparr>)"

definition OnGlfwWindowFocus ::
  "'c Child \<Rightarrow> GLFWwindow_ptr \<Rightarrow> int32 \<Rightarrow> 'c Handler \<Rightarrow> bool \<times> 'c Handler" where
  "OnGlfwWindowFocus ch window focused h =
     (let (wants, c') = c_OnGlfwWindowFocus ch window focused (child h);
          s1 = (state h)\<lparr>event_index := event_index (state h) + 1\<rparr>;
          s2 = (if focused \<noteq> 0 then s1\<lparr>mouse_x := kDoubleInf, mouse_y := kDoubleInf\<rparr> else s1);
          e = \<lparr>e_type = kFocus, e_window = window, child_wants_capture = wants,
               e_union = U_focused focused\<rparr>
      in (wants, \<lparr>child = c', state = push_event e s2\<rparr>))"

definition OnGlfwCursorEnter ::
  "'c Child \<Rightarrow> GLFWwindow_ptr \<Rightarrow> int32 \<Rightarrow> 'c Handler \<Rightarrow> bool \<times> 'c Handler" where
  "OnGlfwCursorEnter ch window entered h =
     (let (wants, c') = c_OnGlfwCursorEnter ch window entered (child h);
          s1 = (state h)\<lparr>event_index := event_index (state h) + 1\<rparr>;
          e = \<lparr>e_type = kEnter, e_window = window, child_wants_capture = wants,
               e_union = U_entered entered\<rparr>
      in (wants, \<lparr>child = c', state = push_event e s1\<rparr>))"

definition OnGlfwCursorPos ::
  "'c Child \<Rightarrow> GLFWwindow_ptr \<Rightarrow> double \<Rightarrow> double \<Rightarrow> 'c Handler \<Rightarrow> bool \<times> 'c Handler" where
  "OnGlfwCursorPos ch window x y h =
     (let (wants, c') = c_OnGlfwCursorPos ch window x y (child h);
          s1 = (state h)\<lparr>event_index := event_index (state h) + 1\<rparr>;
          known = (mouse_x s1 \<noteq> kDoubleInf \<and> mouse_y s1 \<noteq> kDoubleInf);
          xoffset = (if known then dsub x (mouse_x s1) else Finite 0);
          yoffset = (if known then dsub y (mouse_y s1) else Finite 0);
          s2 = s1\<lparr>mouse_x := x, mouse_y := y\<rparr>;
          e = \<lparr>e_type = kCursorPos, e_window = window, child_wants_capture = wants,
               e_union = U_cursor_pos
                 \<lparr>cp_x = x, cp_y = y, cp_xoffset = xoffset, cp_yoffset = yoffset,
                  cp_buttons = mouse_buttons s2, cp_mods = mod_keys s2\<rparr>\<rparr>
      in (wants, \<lparr>child = c', state = push_event e s2\<rparr>))"

definition OnGlfwMouseButton ::
  "'c Child \<Rightarrow> GLFWwindow_ptr \<Rightarrow> int32 \<Rightarrow> int32 \<Rightarrow> int32 \<Rightarrow> 'c Handler \<Rightarrow> bool \<times> 'c Handler" where
  "OnGlfwMouseButton ch window button action mods h =
     (let (wants, c') = c_OnGlfwMouseButton ch window button action mods (child h);
          s1 = (state h)\<lparr>event_index := event_index (state h) + 1\<rparr>;
          mb = mb_value (mouse_buttons s1);
          s2 = (if action = GLFW_PRESS
                then s1\<lparr>mouse_buttons := \<lparr>mb_value = SetBits mb (ButtonToBits button)\<rparr>\<rparr>
                else if action = GLFW_RELEASE
                then s1\<lparr>mouse_buttons := \<lparr>mb_value = ClearBits mb (ButtonToBits button)\<rparr>\<rparr>
                else s1);
          e = \<lparr>e_type = kMouseButton, e_window = window, child_wants_capture = wants,
               e_union = U_mouse_button
                 \<lparr>mbt_button = button, mbt_action = action, mbt_mods = mod_keys s2\<rparr>\<rparr>
      in (wants, \<lparr>child = c', state = push_event e s2\<rparr>))"

definition OnGlfwScroll ::
  "'c Child \<Rightarrow> GLFWwindow_ptr \<Rightarrow> double \<Rightarrow> double \<Rightarrow> 'c Handler \<Rightarrow> bool \<times> 'c Handler" where
  "OnGlfwScroll ch window xoffset yoffset h =
     (let (wants, c') = c_OnGlfwScroll ch window xoffset yoffset (child h);
          s1 = (state h)\<lparr>event_index := event_index (state h) + 1\<rparr>;
          e = \<lparr>e_type = kScroll, e_window = window, child_wants_capture = wants,
               e_union = U_scroll
                 \<lparr>sc_xoffset = xoffset, sc_yoffset = yoffset, sc_mods = mod_keys s1\<rparr>\<rparr>
      in (wants, \<lparr>child = c', state = push_event e s1\<rparr>))"

text \<open>
  One case group of the \<open>switch (key)\<close> of \<open>OnGlfwKey\<close>: \<open>if (action == GLFW_PRESS)
  SetBits(...); if (action == GLFW_RELEASE) ClearBits(...);\<close>
\<close>

definition mod_case :: "int32 \<Rightarrow> int32 \<Rightarrow> ModKeyMask \<Rightarrow> ModKeyMask" where
  "mod_case action bits m =
     (let m1 = (if action = GLFW_PRESS then \<lparr>mk_value = SetBits (mk_value m) bits\<rparr> else m)
      in if action = GLFW_RELEASE then \<lparr>mk_value = ClearBits (mk_value m1) bits\<rparr> else m1)"

definition mod_switch :: "int32 \<Rightarrow> int32 \<Rightarrow> ModKeyMask \<Rightarrow> ModKeyMask" where
  "mod_switch key action m =
     (if key = GLFW_KEY_LEFT_SHIFT \<or> key = GLFW_KEY_RIGHT_SHIFT
        then mod_case action GLFW_MOD_SHIFT m
      else if key = GLFW_KEY_LEFT_CONTROL \<or> key = GLFW_KEY_RIGHT_CONTROL
        then mod_case action GLFW_MOD_CONTROL m
      else if key = GLFW_KEY_LEFT_ALT \<or> key = GLFW_KEY_RIGHT_ALT
        then mod_case action GLFW_MOD_ALT m
      else if key = GLFW_KEY_LEFT_SUPER \<or> key = GLFW_KEY_RIGHT_SUPER
        then mod_case action GLFW_MOD_SUPER m
      else if key = GLFW_KEY_NUM_LOCK
        then mod_case action GLFW_MOD_NUM_LOCK m
      else if key = GLFW_KEY_CAPS_LOCK
        then mod_case action GLFW_MOD_CAPS_LOCK m
      else m)"

definition OnGlfwKey ::
  "'c Child \<Rightarrow> GLFWwindow_ptr \<Rightarrow> int32 \<Rightarrow> int32 \<Rightarrow> int32 \<Rightarrow> int32 \<Rightarrow> 'c Handler
     \<Rightarrow> bool \<times> 'c Handler" where
  "OnGlfwKey ch window key scancode action mods h =
     (let (wants, c') = c_OnGlfwKey ch window key scancode action mods (child h);
          s1 = (state h)\<lparr>event_index := event_index (state h) + 1\<rparr>;
          s2 = s1\<lparr>mod_keys := mod_switch key action (mod_keys s1)\<rparr>;
          e = \<lparr>e_type = kKey, e_window = window, child_wants_capture = wants,
               e_union = U_key
                 \<lparr>k_key = key, k_scancode = scancode, k_action = action,
                  k_mods = mod_keys s2\<rparr>\<rparr>;
          s3 = (if \<not> wants
                then (let s2a =
                            (if action = GLFW_PRESS
                             then s2\<lparr>keys := SetKeyEventIndex (keys s2) key (event_index s2)\<rparr>
                             else if action = GLFW_RELEASE
                             then s2\<lparr>keys := SetKeyEventIndex (keys s2) key 0\<rparr>
                             else s2)
                      in s2a\<lparr>events := events s2a @ [e]\<rparr>)
                else s2);
          s4 = (if action = GLFW_PRESS
                then s3\<lparr>all_keys := SetKeyEventIndex (all_keys s3) key (event_index s3)\<rparr>
                else if action = GLFW_RELEASE
                then s3\<lparr>all_keys := SetKeyEventIndex (all_keys s3) key 0\<rparr>
                else s3)
      in (wants, \<lparr>child = c', state = s4\<lparr>all_events := all_events s4 @ [e]\<rparr>\<rparr>))"

definition OnGlfwChar ::
  "'c Child \<Rightarrow> GLFWwindow_ptr \<Rightarrow> uint32 \<Rightarrow> 'c Handler \<Rightarrow> bool \<times> 'c Handler" where
  "OnGlfwChar ch window c h =
     (let (wants, c') = c_OnGlfwChar ch window c (child h);
          s1 = (state h)\<lparr>event_index := event_index (state h) + 1\<rparr>;
          e = \<lparr>e_type = kChar, e_window = window, child_wants_capture = wants,
               e_union = U_charval c\<rparr>
      in (wants, \<lparr>child = c', state = push_event e s1\<rparr>))"

text \<open>
  What the window system delivers: one of the seven raw callbacks that
  \<open>GlfwAttachInputCallbacksAndSetWindowUserPointer\<close> registers, with its parameters. The
  top-level callback functions look the handler up and call its member, dropping the
  returned flag.
\<close>

datatype Callback =
    WindowFocus GLFWwindow_ptr int32
  | CursorEnter GLFWwindow_ptr int32
  | CursorPosCb GLFWwindow_ptr double double
  | MouseButtonCb GLFWwindow_ptr int32 int32 int32
  | ScrollCb GLFWwindow_ptr double double
  | KeyCb GLFWwindow_ptr int32 int32 int32 int32
  | CharCb GLFWwindow_ptr uint32

fun on_callback :: "'c Child \<Rightarrow> Callback \<Rightarrow> 'c Handler \<Rightarrow> bool \<times> 'c Handler" where
  "on_callback ch (WindowFocus w focused) h = OnGlfwWindowFocus ch w focused h"
| "on_callback ch (CursorEnter w entered) h = OnGlfwCursorEnter ch w entered h"
| "on_callback ch (CursorPosCb w x y) h = OnGlfwCursorPos ch w x y h"
| "on_callback ch (MouseButtonCb w button action mods) h = OnGlfwMouseButton ch w button action mods h"
| "on_callback ch (ScrollCb w xoffset yoffset) h = OnGlfwScroll ch w xoffset yoffset h"
| "on_callback ch (KeyCb w key scancode action mods) h = OnGlfwKey ch w key scancode action mods h"
| "on_callback ch (CharCb w c) h = OnGlfwChar ch w c h"

definition deliver :: "'c Child \<Rightarrow> Callback \<Rightarrow> 'c Handler \<Rightarrow> 'c Handler" where
  "deliver ch cb h = snd (on_callback ch cb h)"

text \<open>
  The main loop seen from the handler: raw callbacks (from \<open>glfwPollEvents\<close>) interleaved
  with the application's calls of \<open>ClearEvents\<close>.
\<close>

datatype Op = Raw Callback | Clear

fun apply_op :: "'c Child \<Rightarrow> Op \<Rightarrow> 'c Handler \<Rightarrow> 'c Handler" where
  "apply_op ch (Raw cb) h = deliver ch cb h"
| "apply_op ch Clear h = ClearEvents ch h"

fun run_ops :: "'c Child \<Rightarrow> Op list \<Rightarrow> 'c Handler \<Rightarrow> 'c Handler" where
  "run_ops ch [] h = h"
| "run_ops ch (op # ops) h = run_ops ch ops (apply_op ch op h)"

fun is_raw :: "Op \<Rightarrow> bool" where
  "is_raw (Raw cb) = True"
| "is_raw Clear = False"

section \<open>glfw_input_impl.h: the callbacks with the vector access checked\<close>

text \<open>
  \<open>OnGlfwKey\<close> is the one callback that indexes a vector: statement by statement as
  above, with the checked table operations. The other six callbacks index nothing.
\<close>

definition OnGlfwKey_checked ::
  "'c Child \<Rightarrow> GLFWwindow_ptr \<Rightarrow> int32 \<Rightarrow> int32 \<Rightarrow> int32 \<Rightarrow> int32 \<Rightarrow> 'c Handler
     \<Rightarrow> fault + bool \<times> 'c Handler" where
  "OnGlfwKey_checked ch window key scancode action mods h =
     (let (wants, c') = c_OnGlfwKey ch window key scancode action mods (child h);
          s1 = (state h)\<lparr>event_index := event_index (state h) + 1\<rparr>;
          s2 = s1\<lparr>mod_keys := mod_switch key action (mod_keys s1)\<rparr>;
          e = \<lparr>e_type = kKey, e_window = window, child_wants_capture = wants,
               e_union = U_key
                 \<lparr>k_key = key, k_scancode = scancode, k_action = action,
                  k_mods = mod_keys s2\<rparr>\<rparr>
      in case (if \<not> wants
               then (case (if action = GLFW_PRESS
                           then SetKeyEventIndex_checked (keys s2) key (event_index s2)
                           else if action = GLFW_RELEASE
                           then SetKeyEventIndex_checked (keys s2) key 0
                           else Inr (keys s2)) of
                       Inl f \<Rightarrow> Inl f
                     | Inr ks \<Rightarrow> Inr (s2\<lparr>keys := ks, events := events s2 @ [e]\<rparr>))
               else Inr s2) of
           Inl f \<Rightarrow> Inl f
         | Inr s3 \<Rightarrow>
             (case (if action = GLFW_PRESS
                    then SetKeyEventIndex_checked (all_keys s3) key (event_index s3)
                    else if action = GLFW_RELEASE
                    then SetKeyEventIndex_checked (all_keys s3) key 0
                    else Inr (all_keys s3)) of
                Inl f \<Rightarrow> Inl f
              | Inr aks \<Rightarrow>
                  Inr (wants,
                       \<lparr>child = c',
                        state = s3\<lparr>all_keys := aks, all_events := all_events s3 @ [e]\<rparr>\<rparr>)))"

fun on_callback_checked :: "'c Child \<Rightarrow> Callback \<Rightarrow> 'c Handler \<Rightarrow> fault + bool \<times> 'c Handler" where
  "on_callback_checked ch (KeyCb w key scancode action mods) h =
     OnGlfwKey_checked ch w key scancode action mods h"
| "on_callback_checked ch cb h = Inr (on_callback ch cb h)"

text \<open>A run of operations with the vector access checked: it stops at the first fault.\<close>

fun apply_op_checked :: "'c Child \<Rightarrow> Op \<Rightarrow> 'c Handler \<Rightarrow> fault + 'c Handler" where
  "apply_op_checked ch (Raw cb) h =
     (case on_callback_checked ch cb h of Inl f \<Rightarrow> Inl f | Inr r \<Rightarrow> Inr (snd r))"
| "apply_op_checked ch Clear h = Inr (ClearEvents ch h)"

fun run_ops_checked :: "'c Child \<Rightarrow> Op list \<Rightarrow> 'c Handler \<Rightarrow> fault + 'c Handler" where
  "run_ops_checked ch [] h = Inr h"
| "run_ops_checked ch (op # ops) h =
     (case apply_op_checked ch op h of Inl f \<Rightarrow> Inl f | Inr h' \<Rightarrow> run_ops_checked ch ops h')"

section \<open>Notions used to state the properties of the input pipeline\<close>

text \<open>The condition \<open>key < pressed_event_index_.size()\<close> of the two table operations.\<close>

definition tracked :: "KeyboardState \<Rightarrow> int32 \<Rightarrow> bool" where
  "tracked ks key = (key_as_size_t key < length (pressed_event_index ks))"

text \<open>The child's own answer to a raw callback.\<close>

fun child_call :: "'c Child \<Rightarrow> Callback \<Rightarrow> 'c \<Rightarrow> bool \<times> 'c" where
  "child_call ch (WindowFocus w focused) c = c_OnGlfwWindowFocus ch w focused c"
| "child_call ch (CursorEnter w entered) c = c_OnGlfwCursorEnter ch w entered c"
| "child_call ch (CursorPosCb w x y) c = c_OnGlfwCursorPos ch w x y c"
| "child_call ch (MouseButtonCb w button action mods) c = c_OnGlfwMouseButton ch w button action mods c"
| "child_call ch (ScrollCb w xoffset yoffset) c = c_OnGlfwScroll ch w xoffset yoffset c"
| "child_call ch (KeyCb w key scancode action mods) c = c_OnGlfwKey ch w key scancode action mods c"
| "child_call ch (CharCb w u) c = c_OnGlfwChar ch w u c"

text \<open>A key callback for \<open>key\<close> whose action is a press or a release.\<close>

fun touches_key :: "int32 \<Rightarrow> Op \<Rightarrow> bool" where
  "touches_key key (Raw (KeyCb w k scancode action mods)) =
     (k = key \<and> (action = GLFW_PRESS \<or> action = GLFW_RELEASE))"
| "touches_key key (Raw cb) = False"
| "touches_key key Clear = False"

fun is_cursor_pos :: "Op \<Rightarrow> bool" where
  "is_cursor_pos (Raw (CursorPosCb w x y)) = True"
| "is_cursor_pos (Raw cb) = False"
| "is_cursor_pos Clear = False"

text \<open>The delta a cursor-position event reports.\<close>

fun cursor_delta :: "Event \<Rightarrow> (double \<times> double) option" where
  "cursor_delta e =
     (case e_union e of
        U_cursor_pos cp \<Rightarrow> Some (cp_xoffset cp, cp_yoffset cp)
      | _ \<Rightarrow> None)"

text \<open>
  The key table against the event counter: every stored index is at most the counter, and
  two different slots hold the same index only when both are 0.
\<close>

definition table_inv :: "uint64 \<Rightarrow> KeyboardState \<Rightarrow> bool" where
  "table_inv ei ks =
     ((\<forall>i < length (pressed_event_index ks). unat (pressed_event_index ks ! i) \<le> unat ei) \<and>
      (\<forall>i < length (pressed_event_index ks). \<forall>j < length (pressed_event_index ks).
          i \<noteq> j \<and> pressed_event_index ks ! i = pressed_event_index ks ! j
            \<longrightarrow> pressed_event_index ks ! i = 0))"

text \<open>The events of a list that no child captured.\<close>

definition uncaptured :: "Event list \<Rightarrow> Event list" where
  "uncaptured es = filter (\<lambda>e. \<not> child_wants_capture e) es"

text \<open>A child, for examples: it captures every key callback and nothing else.\<close>

definition KeyGrabber :: "unit Child" where
  "KeyGrabber = NoOpHandler\<lparr>c_OnGlfwKey := (\<lambda>w k s a m c. (True, c))\<rparr>"

text \<open>Both key tables of a handler against its event counter.\<close>

definition handler_inv :: "'c Handler \<Rightarrow> bool" where
  "handler_inv h =
     (table_inv (event_index (state h)) (keys (state h)) \<and>
      table_inv (event_index (state h)) (all_keys (state h)))"

text \<open>
  A long run, for an example: \<open>2^32 - 1\<close> character callbacks, then a press of key 65.
\<close>

definition idle_then_press :: "Op list" where
  "idle_then_press =
     replicate (2 ^ 32 - 1) (Raw (CharCb 0 97)) @ [Raw (KeyCb 0 65 0 GLFW_PRESS 0)]"

section \<open>filament_imgui.h: the data the UI translator reads and owns\<close>

text \<open>
  A C++ \<open>float\<close> (IEEE 754 binary32), modelled like \<open>double\<close>: the special values, and for
  a finite value the real number it denotes. The arithmetic of the translator is on
  \<open>float\<close>: each result is the exact one rounded to binary32. A conversion to an integer
  type truncates toward zero; the conversion of a NaN, of an infinity or of a value outside
  the target type is undefined in C++, and the value the model gives there (0) is an
  arbitrary choice that no property below depends on.
\<close>

type_synonym float = double

definition round_float :: "real \<Rightarrow> float" where
  "round_float = ieee_round 24 127"

fun is_negative :: "double \<Rightarrow> bool" where
  "is_negative (Finite a) = (a < 0)"
| "is_negative NegInf = True"
| "is_negative a = False"

text \<open>The C++ \<open>a * b\<close> and \<open>a - b\<close> on floats.\<close>

fun fmul :: "float \<Rightarrow> float \<Rightarrow> float" where
  "fmul NaN b = NaN"
| "fmul a NaN = NaN"
| "fmul (Finite a) (Finite b) = round_float (a * b)"
| "fmul a b =
     (if a = Finite 0 \<or> b = Finite 0 then NaN
      else if is_negative a = is_negative b then PosInf else NegInf)"

fun fsub :: "float \<Rightarrow> float \<Rightarrow> float" where
  "fsub NaN b = NaN"
| "fsub a NaN = NaN"
| "fsub (Finite a) (Finite b) = round_float (a - b)"
| "fsub (Finite a) PosInf = NegInf"
| "fsub (Finite a) NegInf = PosInf"
| "fsub PosInf PosInf = NaN"
| "fsub PosInf b = PosInf"
| "fsub NegInf NegInf = NaN"
| "fsub NegInf b = NegInf"

definition trunc_toward_zero :: "real \<Rightarrow> int" where
  "trunc_toward_zero r = (if 0 \<le> r then \<lfloor>r\<rfloor> else \<lceil>r\<rceil>)"

fun float_to_int :: "float \<Rightarrow> int32" where
  "float_to_int (Finite r) =
     (if - (2 ^ 31) \<le> trunc_toward_zero r \<and> trunc_toward_zero r < 2 ^ 31
      then word_of_int (trunc_toward_zero r) else 0)"
| "float_to_int a = 0"

fun float_to_uint32 :: "float \<Rightarrow> uint32" where
  "float_to_uint32 (Finite r) =
     (if 0 \<le> trunc_toward_zero r \<and> trunc_toward_zero r < 2 ^ 32
      then word_of_int (trunc_toward_zero r) else 0)"
| "float_to_uint32 a = 0"

fun float_to_uint16 :: "float \<Rightarrow> 16 word" where
  "float_to_uint16 (Finite r) =
     (if 0 \<le> trunc_toward_zero r \<and> trunc_toward_zero r < 2 ^ 16
      then word_of_int (trunc_toward_zero r) else 0)"
| "float_to_uint16 a = 0"

text \<open>An \<open>int\<close> converted to \<open>float\<close>: rounded, as not every \<open>int\<close> is a \<open>float\<close>.\<close>

definition int_to_float :: "int32 \<Rightarrow> float" where
  "int_to_float i = round_float (real_of_int (sint i))"

text \<open>
  ImGui's types, as far as the translator reads them (\<open>imgui.h\<close> is not part of the
  repository). A pointer is its address, 0 for \<open>nullptr\<close>. The counts \<open>TotalVtxCount\<close>,
  \<open>TotalIdxCount\<close> and the sizes of ImGui's vectors are C++ \<open>int\<close>s that ImGui keeps
  non-negative: natural numbers here. \<open>CmdListsCount\<close> is the length of \<open>CmdLists\<close>.
\<close>

record ImVec2 =
  v2_x :: float
  v2_y :: float

record ImVec4 =
  v4_x :: float
  v4_y :: float
  v4_z :: float
  v4_w :: float

record ImDrawVert =
  vert_pos :: ImVec2
  vert_uv :: ImVec2
  vert_col :: uint32

record ImDrawCmd =
  ClipRect :: ImVec4
  TexID :: nat
  VtxOffset :: uint32
  IdxOffset :: uint32
  ElemCount :: uint32
  UserCallback :: "nat option"

record ImDrawList =
  CmdBuffer :: "ImDrawCmd list"
  IdxBuffer :: "ImDrawIdx list"
  VtxBuffer :: "ImDrawVert list"

record ImDrawData =
  CmdLists :: "ImDrawList list"
  TotalIdxCount :: nat
  TotalVtxCount :: nat

record ImGuiIO =
  DisplaySize :: ImVec2
  DisplayFramebufferScale :: ImVec2
  Fonts_IsBuilt :: bool

text \<open>
  Filament's objects, as far as the translator uses them. A buffer has the handle the
  engine gave it, the count it was built with, and the data of the latest
  \<open>setBufferAt\<close>/\<open>setBuffer\<close> (nothing for a new buffer). The engine hands out fresh
  handles and records what was destroyed and how often a fence was waited for.
\<close>

record VertexBuffer =
  vb_handle :: nat
  vb_vertexCount :: nat
  vb_data :: "ImDrawVert list"

record IndexBuffer =
  ib_handle :: nat
  ib_indexCount :: nat
  ib_data :: "ImDrawIdx list"

record MaterialInstance =
  mi_handle :: nat
  mi_scissor :: "(uint32 \<times> uint32 \<times> uint32 \<times> uint32) option"
  mi_albedo :: "nat option"

text \<open>One entry of the renderable builder: geometry, blend order and material.\<close>

record Primitive =
  prim_vertices :: "nat option"
  prim_indices :: "nat option"
  prim_offset :: uint32
  prim_count :: uint32
  prim_blendOrder :: "16 word"
  prim_material :: nat

record Engine =
  next_handle :: nat
  destroyed :: "nat list"
  fence_waits :: nat

text \<open>
  \<open>class Ui\<close>. \<open>engine\<close> is \<open>None\<close> for \<open>engine_ == nullptr\<close>. Of the view and the camera the
  model keeps what \<open>UpdateView\<close> sets: the viewport (width and height) and the right and
  bottom of the orthographic projection. \<open>renderable\<close> is the renderable component of
  \<open>ui_entity_\<close>: \<open>None\<close> when there is none, else the builder's entries, an entry being
  \<open>None\<close> until \<open>geometry\<close> sets it. \<open>callbacks_invoked\<close> and \<open>warnings\<close> record the two
  effects outside the object: the user callbacks called, and the lines written to
  \<open>std::cout\<close>.
\<close>

record Ui =
  engine :: "Engine option"
  material :: nat
  viewport :: "(uint32 \<times> uint32) option"
  projection :: "(double \<times> double) option"
  renderable :: "Primitive option list option"
  font_atlas :: nat
  vertex_buffer :: "VertexBuffer option"
  index_buffer :: "IndexBuffer option"
  material_instances :: "MaterialInstance list"
  vertex_data :: "ImDrawVert list"
  index_data :: "ImDrawIdx list"
  callbacks_invoked :: "nat list"
  warnings :: nat

text \<open>\<open>Ui(engine, material)\<close> with a valid engine.\<close>

definition Ui_ctor :: "Engine \<Rightarrow> nat \<Rightarrow> Ui" where
  "Ui_ctor eng mat =
     \<lparr>engine = Some eng, material = mat, viewport = None, projection = None,
      renderable = None, font_atlas = 0, vertex_buffer = None, index_buffer = None,
      material_instances = [], vertex_data = [], index_data = [],
      callbacks_invoked = [], warnings = 0\<rparr>"

section \<open>filament_imgui_impl.h: UpdateView\<close>

text \<open>What can go wrong below the C++: an access outside a vector, a null material.\<close>

datatype ui_fault = BufferOverrun | NullMaterial

text \<open>
  \<open>memcpy(dst.data() + at, src, n * sizeof(T))\<close> into a vector: inside the vector it
  replaces \<open>n\<close> entries from \<open>at\<close> on; past its end it is undefined behaviour.
\<close>

definition splice :: "'a list \<Rightarrow> nat \<Rightarrow> 'a list \<Rightarrow> 'a list" where
  "splice dst pos src = take pos dst @ src @ drop (pos + length src) dst"

definition memcpy_at :: "'a list \<Rightarrow> nat \<Rightarrow> 'a list \<Rightarrow> ui_fault + 'a list" where
  "memcpy_at dst pos src =
     (if pos + length src \<le> length dst then Inr (splice dst pos src) else Inl BufferOverrun)"

text \<open>
  The loop \<open>for (i = 0; i < num_inds; ++i) index_data_[i_ind + i] = Data[i] + i_vert;\<close>
  over the remaining source indices. The sum is an \<open>int\<close>, stored into an \<open>ImDrawIdx\<close>: it
  is cut to 16 bits.
\<close>

fun rewrite_indices :: "ImDrawIdx list \<Rightarrow> nat \<Rightarrow> nat \<Rightarrow> ImDrawIdx list \<Rightarrow> ui_fault + ImDrawIdx list" where
  "rewrite_indices [] pos i_vert dst = Inr dst"
| "rewrite_indices (d # ds) pos i_vert dst =
     (if pos < length dst
      then rewrite_indices ds (Suc pos) i_vert (dst[pos := d + of_nat i_vert])
      else Inl BufferOverrun)"

text \<open>\<open>std::vector::resize\<close>, new entries value-initialised.\<close>

definition resize :: "'a \<Rightarrow> 'a list \<Rightarrow> nat \<Rightarrow> 'a list" where
  "resize dflt xs n = take n xs @ replicate (n - length xs) dflt"

definition zero_vert :: ImDrawVert where
  "zero_vert =
     \<lparr>vert_pos = \<lparr>v2_x = Finite 0, v2_y = Finite 0\<rparr>,
      vert_uv = \<lparr>v2_x = Finite 0, v2_y = Finite 0\<rparr>, vert_col = 0\<rparr>"

text \<open>
  \<open>SetScissor\<close>: \<open>mat.setScissor(clip_rect.x, height_px - clip_rect.w,
  (uint16_t)(clip_rect.z - clip_rect.x), (uint16_t)(clip_rect.w - clip_rect.y))\<close>, the
  parameters of \<open>setScissor\<close> being \<open>uint32_t\<close>.
\<close>

definition SetScissor :: "ImVec4 \<Rightarrow> int32 \<Rightarrow> MaterialInstance \<Rightarrow> MaterialInstance" where
  "SetScissor clip_rect height_px mat =
     mat\<lparr>mi_scissor := Some
       (float_to_uint32 (v4_x clip_rect),
        float_to_uint32 (fsub (int_to_float height_px) (v4_w clip_rect)),
        ucast (float_to_uint16 (fsub (v4_z clip_rect) (v4_x clip_rect))),
        ucast (float_to_uint16 (fsub (v4_w clip_rect) (v4_y clip_rect))))\<rparr>"

text \<open>
  The inner loop \<open>for (const auto &cmd : draw_list.CmdBuffer)\<close>. It changes the material
  instances, the builder's entries, \<open>i_renderable\<close>, and calls user callbacks.
  \<open>material_instances_[i_renderable]\<close> outside the pool is undefined behaviour; the builder
  ignores a \<open>geometry\<close>, \<open>blendOrder\<close> or \<open>material\<close> for an index it has no entry for.
\<close>

record cmd_state =
  cs_pool :: "MaterialInstance list"
  cs_entries :: "Primitive option list"
  cs_i_renderable :: nat
  cs_calls :: "nat list"

fun cmd_loop ::
  "ImDrawCmd list \<Rightarrow> int32 \<Rightarrow> nat \<Rightarrow> nat option \<Rightarrow> nat option \<Rightarrow> nat \<Rightarrow> cmd_state
     \<Rightarrow> ui_fault + cmd_state" where
  "cmd_loop [] height_px atlas vb ib i_ind cs = Inr cs"
| "cmd_loop (cmd # cmds) height_px atlas vb ib i_ind cs =
     (case UserCallback cmd of
        Some cb \<Rightarrow> cmd_loop cmds height_px atlas vb ib i_ind (cs\<lparr>cs_calls := cs_calls cs @ [cb]\<rparr>)
      | None \<Rightarrow>
          (if cs_i_renderable cs < length (cs_pool cs)
           then
             (let i = cs_i_renderable cs;
                  mat = SetScissor (ClipRect cmd) height_px (cs_pool cs ! i);
                  mat' = mat\<lparr>mi_albedo := Some (if TexID cmd \<noteq> 0 then TexID cmd else atlas)\<rparr>;
                  prim = \<lparr>prim_vertices = vb, prim_indices = ib,
                          prim_offset = IdxOffset cmd + of_nat i_ind,
                          prim_count = ElemCount cmd,
                          prim_blendOrder = of_nat i,
                          prim_material = mi_handle mat'\<rparr>
              in cmd_loop cmds height_px atlas vb ib i_ind
                   (cs\<lparr>cs_pool := (cs_pool cs)[i := mat'],
                       cs_entries := (cs_entries cs)[i := Some prim],
                       cs_i_renderable := Suc i\<rparr>))
           else Inl BufferOverrun))"

text \<open>
  The outer loop \<open>for (int i = 0; i < commands.CmdListsCount; ++i)\<close>, from list \<open>i\<close> on.
\<close>

record list_state =
  ls_i_vert :: nat
  ls_i_ind :: nat
  ls_vertex_data :: "ImDrawVert list"
  ls_index_data :: "ImDrawIdx list"
  ls_cmd :: cmd_state

fun list_loop ::
  "ImDrawList list \<Rightarrow> nat \<Rightarrow> int32 \<Rightarrow> nat \<Rightarrow> nat option \<Rightarrow> nat option \<Rightarrow> list_state
     \<Rightarrow> ui_fault + list_state" where
  "list_loop [] i height_px atlas vb ib ls = Inr ls"
| "list_loop (draw_list # rest) i height_px atlas vb ib ls =
     (let num_verts = length (VtxBuffer draw_list);
          num_inds = length (IdxBuffer draw_list)
      in case memcpy_at (ls_vertex_data ls) (ls_i_vert ls) (VtxBuffer draw_list) of
           Inl f \<Rightarrow> Inl f
         | Inr vd \<Rightarrow>
             (case (if i = 0
                    then memcpy_at (ls_index_data ls) (ls_i_ind ls) (IdxBuffer draw_list)
                    else rewrite_indices (IdxBuffer draw_list) (ls_i_ind ls) (ls_i_vert ls)
                           (ls_index_data ls)) of
                Inl f \<Rightarrow> Inl f
              | Inr idd \<Rightarrow>
                  (case cmd_loop (CmdBuffer draw_list) height_px atlas vb ib (ls_i_ind ls) (ls_cmd ls) of
                     Inl f \<Rightarrow> Inl f
                   | Inr cs \<Rightarrow>
                       list_loop rest (Suc i) height_px atlas vb ib
                         \<lparr>ls_i_vert = ls_i_vert ls + num_verts,
                          ls_i_ind = ls_i_ind ls + num_inds,
                          ls_vertex_data = vd,
                          ls_index_data = idd,
                          ls_cmd = cs\<rparr>)))"

text \<open>The engine's part: destroy (of \<open>nullptr\<close>: nothing), create, wait for a fence.\<close>

definition engine_destroy :: "nat option \<Rightarrow> Engine \<Rightarrow> Engine" where
  "engine_destroy h eng =
     (case h of None \<Rightarrow> eng | Some x \<Rightarrow> eng\<lparr>destroyed := destroyed eng @ [x]\<rparr>)"

definition engine_fresh :: "Engine \<Rightarrow> nat \<times> Engine" where
  "engine_fresh eng = (next_handle eng, eng\<lparr>next_handle := Suc (next_handle eng)\<rparr>)"

definition wait_fence :: "Engine \<Rightarrow> Engine" where
  "wait_fence eng = eng\<lparr>fence_waits := Suc (fence_waits eng)\<rparr>"

text \<open>
  \<open>material_instances_.resize(num_renderables)\<close> and the loop that fills the new slots with
  \<open>material_->createInstance()\<close>, one new instance after the other.
\<close>

fun create_instances :: "nat \<Rightarrow> Engine \<Rightarrow> MaterialInstance list \<times> Engine" where
  "create_instances 0 eng = ([], eng)"
| "create_instances (Suc n) eng =
     (let (h, eng1) = engine_fresh eng;
          (ms, eng2) = create_instances n eng1
      in (\<lparr>mi_handle = h, mi_scissor = None, mi_albedo = None\<rparr> # ms, eng2))"

text \<open>The two buffer swaps under \<open>if (rebuild_vertex_buffer || rebuild_index_buffer)\<close>.\<close>

definition rebuild_vertex :: "nat \<Rightarrow> Engine \<Rightarrow> Ui \<Rightarrow> Engine \<times> Ui" where
  "rebuild_vertex count eng ui =
     (let eng1 = engine_destroy (map_option vb_handle (vertex_buffer ui)) eng;
          (h, eng2) = engine_fresh eng1
      in (eng2,
          ui\<lparr>vertex_buffer := Some \<lparr>vb_handle = h, vb_vertexCount = count, vb_data = []\<rparr>,
             vertex_data := resize zero_vert (vertex_data ui) count\<rparr>))"

definition rebuild_index :: "nat \<Rightarrow> Engine \<Rightarrow> Ui \<Rightarrow> Engine \<times> Ui" where
  "rebuild_index count eng ui =
     (let eng1 = engine_destroy (map_option ib_handle (index_buffer ui)) eng;
          (h, eng2) = engine_fresh eng1
      in (eng2,
          ui\<lparr>index_buffer := Some \<lparr>ib_handle = h, ib_indexCount = count, ib_data = []\<rparr>,
             index_data := resize 0 (index_data ui) count\<rparr>))"

text \<open>
  The block under \<open>if (rebuild_vertex_buffer || rebuild_index_buffer)\<close>: one fence, then
  each buffer whose flag is set is destroyed and created anew with the frame's total.
\<close>

definition rebuild_buffers :: "bool \<Rightarrow> bool \<Rightarrow> ImDrawData \<Rightarrow> Engine \<Rightarrow> Ui \<Rightarrow> Engine \<times> Ui" where
  "rebuild_buffers rebuild_vertex_buffer rebuild_index_buffer commands eng ui =
     (if rebuild_vertex_buffer \<or> rebuild_index_buffer
      then (let eng_a = wait_fence eng;
                (eng_b, ui_b) =
                  (if rebuild_vertex_buffer
                   then rebuild_vertex (TotalVtxCount commands) eng_a ui
                   else (eng_a, ui))
            in if rebuild_index_buffer
               then rebuild_index (TotalIdxCount commands) eng_b ui_b
               else (eng_b, ui_b))
      else (eng, ui))"

text \<open>
  The rest of \<open>UpdateView\<close>, from \<open>// Count how many renderables we need\<close> on: the count,
  the extension of the material instances (\<open>material_->createInstance()\<close> on a null
  material is the fault \<open>NullMaterial\<close>), the two loops, the build of the renderable and the
  two uploads, each made only when its count is not 0.
\<close>

definition build_renderables :: "ImDrawData \<Rightarrow> int32 \<Rightarrow> Engine \<Rightarrow> Ui \<Rightarrow> ui_fault + Ui" where
  "build_renderables commands height_px eng ui =
     (let num_renderables = sum_list (map (\<lambda>l. length (CmdBuffer l)) (CmdLists commands))
      in if length (material_instances ui) < num_renderables \<and> material ui = 0
         then Inl NullMaterial
         else
           (let (new_instances, eng') =
                  create_instances (num_renderables - length (material_instances ui)) eng;
                pool = material_instances ui @ new_instances
            in case list_loop (CmdLists commands) 0 height_px (font_atlas ui)
                      (map_option vb_handle (vertex_buffer ui))
                      (map_option ib_handle (index_buffer ui))
                      \<lparr>ls_i_vert = 0, ls_i_ind = 0,
                       ls_vertex_data = vertex_data ui,
                       ls_index_data = index_data ui,
                       ls_cmd = \<lparr>cs_pool = pool,
                                 cs_entries = replicate num_renderables None,
                                 cs_i_renderable = 0,
                                 cs_calls = callbacks_invoked ui\<rparr>\<rparr> of
                 Inl f \<Rightarrow> Inl f
               | Inr ls \<Rightarrow>
                   Inr (ui\<lparr>engine := Some eng',
                           material_instances := cs_pool (ls_cmd ls),
                           vertex_data := ls_vertex_data ls,
                           index_data := ls_index_data ls,
                           callbacks_invoked := cs_calls (ls_cmd ls),
                           renderable := Some (cs_entries (ls_cmd ls)),
                           vertex_buffer :=
                             (if ls_i_vert ls \<noteq> 0
                              then map_option
                                     (\<lambda>b. b\<lparr>vb_data := take (ls_i_vert ls) (ls_vertex_data ls)\<rparr>)
                                     (vertex_buffer ui)
                              else vertex_buffer ui),
                           index_buffer :=
                             (if ls_i_ind ls \<noteq> 0
                              then map_option
                                     (\<lambda>b. b\<lparr>ib_data := take (ls_i_ind ls) (ls_index_data ls)\<rparr>)
                                     (index_buffer ui)
                              else index_buffer ui)\<rparr>)))"

definition UpdateView :: "ImDrawData \<Rightarrow> ImGuiIO \<Rightarrow> Ui \<Rightarrow> ui_fault + Ui" where
  "UpdateView commands io ui =
     (case engine ui of
        None \<Rightarrow> Inr ui
      | Some eng \<Rightarrow>
          if v2_x (DisplaySize io) = Finite 0 \<and> v2_y (DisplaySize io) = Finite 0 then Inr ui
          else
            (let width_px = float_to_int (fmul (v2_x (DisplaySize io)) (v2_x (DisplayFramebufferScale io)));
                 height_px = float_to_int (fmul (v2_y (DisplaySize io)) (v2_y (DisplayFramebufferScale io)));
                 ui1 = ui\<lparr>viewport := Some (width_px, height_px),
                          projection := Some (v2_x (DisplaySize io), v2_y (DisplaySize io)),
                          renderable := None\<rparr>
             in if CmdLists commands = [] then Inr ui1
                else
                  (let rebuild_vertex_buffer =
                         (case vertex_buffer ui1 of
                            None \<Rightarrow> True
                          | Some b \<Rightarrow> vb_vertexCount b < TotalVtxCount commands);
                       rebuild_index_buffer =
                         (case index_buffer ui1 of
                            None \<Rightarrow> True
                          | Some b \<Rightarrow> ib_indexCount b < TotalIdxCount commands);
                       ui2 = (if \<not> Fonts_IsBuilt io then ui1\<lparr>warnings := Suc (warnings ui1)\<rparr> else ui1);
                       (eng3, ui3) =
                         rebuild_buffers rebuild_vertex_buffer rebuild_index_buffer commands eng ui2
                   in build_renderables commands height_px eng3 ui3)))"

text \<open>The frames of a run: each is one call of \<open>UpdateView\<close>; a fault ends the run.\<close>

fun run_frames :: "(ImDrawData \<times> ImGuiIO) list \<Rightarrow> Ui \<Rightarrow> ui_fault + Ui" where
  "run_frames [] ui = Inr ui"
| "run_frames ((commands, io) # fs) ui =
     (case UpdateView commands io ui of Inl f \<Rightarrow> Inl f | Inr ui' \<Rightarrow> run_frames fs ui')"

section \<open>Notions used to state the properties of the UI translator\<close>

text \<open>The capacity of a buffer, 0 when there is none.\<close>

definition vertex_capacity :: "Ui \<Rightarrow> nat" where
  "vertex_capacity ui = (case vertex_buffer ui of None \<Rightarrow> 0 | Some b \<Rightarrow> vb_vertexCount b)"

definition index_capacity :: "Ui \<Rightarrow> nat" where
  "index_capacity ui = (case index_buffer ui of None \<Rightarrow> 0 | Some b \<Rightarrow> ib_indexCount b)"

text \<open>
  A frame that reaches the buffers: the engine is there, the display size is not zero and
  there is a command list.
\<close>

definition display_zero :: "ImGuiIO \<Rightarrow> bool" where
  "display_zero io = (v2_x (DisplaySize io) = Finite 0 \<and> v2_y (DisplaySize io) = Finite 0)"

definition renders :: "ImDrawData \<Rightarrow> ImGuiIO \<Rightarrow> Ui \<Rightarrow> bool" where
  "renders commands io ui =
     (engine ui \<noteq> None \<and> \<not> display_zero io \<and> CmdLists commands \<noteq> [])"

text \<open>What the start of \<open>UpdateView\<close> sets once the display size is not zero.\<close>

definition frame_start :: "ImGuiIO \<Rightarrow> Ui \<Rightarrow> Ui" where
  "frame_start io ui =
     ui\<lparr>viewport := Some
            (float_to_int (fmul (v2_x (DisplaySize io)) (v2_x (DisplayFramebufferScale io))),
             float_to_int (fmul (v2_y (DisplaySize io)) (v2_y (DisplayFramebufferScale io)))),
        projection := Some (v2_x (DisplaySize io), v2_y (DisplaySize io)),
        renderable := None\<rparr>"

text \<open>
  The largest demand of the frames that reach the buffers, starting from a capacity.
\<close>

fun high_water :: "(ImDrawData \<Rightarrow> nat) \<Rightarrow> (ImDrawData \<times> ImGuiIO) list \<Rightarrow> nat \<Rightarrow> nat" where
  "high_water demand [] cap = cap"
| "high_water demand ((commands, io) # fs) cap =
     high_water demand fs
       (if display_zero io \<or> CmdLists commands = [] then cap else max cap (demand commands))"

text \<open>
  The snapshot vectors are as long as their buffers are large: what the constructor
  establishes and \<open>UpdateView\<close> keeps.
\<close>

definition ui_inv :: "Ui \<Rightarrow> bool" where
  "ui_inv ui =
     (length (vertex_data ui) = vertex_capacity ui \<and>
      length (index_data ui) = index_capacity ui)"

text \<open>
  Draw data as ImGui produces it: the totals are the sums over the command lists and fit
  the C++ \<open>int\<close> that holds them, and every index of a list points into that list's
  vertices.
\<close>

definition total_vertices :: "ImDrawList list \<Rightarrow> nat" where
  "total_vertices ls = sum_list (map (\<lambda>l. length (VtxBuffer l)) ls)"

definition total_indices :: "ImDrawList list \<Rightarrow> nat" where
  "total_indices ls = sum_list (map (\<lambda>l. length (IdxBuffer l)) ls)"

definition well_formed :: "ImDrawData \<Rightarrow> bool" where
  "well_formed commands =
     (TotalVtxCount commands = total_vertices (CmdLists commands) \<and>
      TotalIdxCount commands = total_indices (CmdLists commands) \<and>
      TotalVtxCount commands < 2 ^ 31 \<and> TotalIdxCount commands < 2 ^ 31 \<and>
      (\<forall>l \<in> set (CmdLists commands). \<forall>x \<in> set (IdxBuffer l). unat x < length (VtxBuffer l)))"

text \<open>
  The index array the claim describes: list \<open>k\<close>'s indices, each plus the number of
  vertices of the lists before it (0 for the first list), as numbers.
\<close>

fun shifted_indices :: "nat \<Rightarrow> ImDrawList list \<Rightarrow> nat list" where
  "shifted_indices off [] = []"
| "shifted_indices off (l # ls) =
     map (\<lambda>x. unat x + off) (IdxBuffer l) @ shifted_indices (off + length (VtxBuffer l)) ls"

text \<open>The same array as the code stores it, in 16 bits.\<close>

fun stored_indices :: "nat \<Rightarrow> ImDrawList list \<Rightarrow> ImDrawIdx list" where
  "stored_indices off [] = []"
| "stored_indices off (l # ls) =
     map (\<lambda>x. x + of_nat off) (IdxBuffer l) @ stored_indices (off + length (VtxBuffer l)) ls"

text \<open>The draw calls of a command buffer that carry geometry, not a user callback.\<close>

definition geometry_cmds :: "ImDrawCmd list \<Rightarrow> ImDrawCmd list" where
  "geometry_cmds cmds = filter (\<lambda>c. UserCallback c = None) cmds"

text \<open>
  The two flags \<open>rebuild_vertex_buffer\<close> and \<open>rebuild_index_buffer\<close> of a frame, and the
  warning for a font atlas that is not built.
\<close>

definition rv_flag :: "ImDrawData \<Rightarrow> Ui \<Rightarrow> bool" where
  "rv_flag commands ui = (vertex_buffer ui = None \<or> vertex_capacity ui < TotalVtxCount commands)"

definition ri_flag :: "ImDrawData \<Rightarrow> Ui \<Rightarrow> bool" where
  "ri_flag commands ui = (index_buffer ui = None \<or> index_capacity ui < TotalIdxCount commands)"

definition warned :: "ImGuiIO \<Rightarrow> Ui \<Rightarrow> Ui" where
  "warned io ui = (if \<not> Fonts_IsBuilt io then ui\<lparr>warnings := Suc (warnings ui)\<rparr> else ui)"

section \<open>Example frames\<close>

text \<open>
  One quad (4 vertices, 6 indices, one draw call with clip rectangle (0,0,100,100) and no
  texture), draw data of two such lists, of one, and of none; a 200 by 200 display and a
  minimised one; and draw data of two lists of 40000 vertices each.
\<close>

definition example_cmd :: ImDrawCmd where
  "example_cmd =
     \<lparr>ClipRect = \<lparr>v4_x = Finite 0, v4_y = Finite 0, v4_z = Finite 100, v4_w = Finite 100\<rparr>,
      TexID = 0, VtxOffset = 0, IdxOffset = 0, ElemCount = 6, UserCallback = None\<rparr>"

definition example_list :: ImDrawList where
  "example_list =
     \<lparr>CmdBuffer = [example_cmd], IdxBuffer = [0, 1, 2, 0, 2, 3],
      VtxBuffer = [zero_vert, zero_vert, zero_vert, zero_vert]\<rparr>"

definition example_commands :: ImDrawData where
  "example_commands = \<lparr>CmdLists = [example_list, example_list], TotalIdxCount = 12, TotalVtxCount = 8\<rparr>"

definition empty_commands :: ImDrawData where
  "empty_commands = \<lparr>CmdLists = [], TotalIdxCount = 0, TotalVtxCount = 0\<rparr>"

definition example_io :: ImGuiIO where
  "example_io =
     \<lparr>DisplaySize = \<lparr>v2_x = Finite 200, v2_y = Finite 200\<rparr>,
      DisplayFramebufferScale = \<lparr>v2_x = Finite 1, v2_y = Finite 1\<rparr>, Fonts_IsBuilt = True\<rparr>"

definition minimized_io :: ImGuiIO where
  "minimized_io =
     \<lparr>DisplaySize = \<lparr>v2_x = Finite 0, v2_y = Finite 0\<rparr>,
      DisplayFramebufferScale = \<lparr>v2_x = Finite 1, v2_y = Finite 1\<rparr>, Fonts_IsBuilt = True\<rparr>"

definition example_engine :: Engine where
  "example_engine = \<lparr>next_handle = 100, destroyed = [], fence_waits = 0\<rparr>"

definition big_commands :: ImDrawData where
  "big_commands =
     \<lparr>CmdLists =
        [\<lparr>CmdBuffer = [example_cmd], IdxBuffer = [0], VtxBuffer = replicate 40000 zero_vert\<rparr>,
         \<lparr>CmdBuffer = [example_cmd], IdxBuffer = [30000], VtxBuffer = replicate 40000 zero_vert\<rparr>],
      TotalIdxCount = 2, TotalVtxCount = 80000\<rparr>"

definition small_commands :: ImDrawData where
  "small_commands = \<lparr>CmdLists = [example_list], TotalIdxCount = 6, TotalVtxCount = 4\<rparr>"

section \<open>Rounding\<close>

text \<open>
  A whole number below \<open>2^p\<close> in magnitude is a value of the format, and rounding leaves it
  as it is.
\<close>

lemma round_half_even_of_int: "round_half_even (of_int m) = m"
  by (simp add: round_half_even_def)

lemma ieee_round_of_int:
  assumes small: "\<bar>n\<bar> < 2 ^ p" and p: "int p \<le> emax + 1" and e1: "1 \<le> emax"
  shows "ieee_round p emax (of_int n) = Finite (of_int n)"
proof (cases "n = 0")
  case True
  then show ?thesis by (simp add: ieee_round_def)
next
  case False
  define a where "a = \<bar>n\<bar>"
  have a0: "0 < a" using False by (simp add: a_def)
  define k where "k = nat (bitlen a - 1)"
  have bl: "0 < bitlen a" using a0 bitlen_nonneg [of a] bitlen_eq_zero_iff [of a] by linarith
  have kb: "2 ^ k \<le> a" "a < 2 ^ (k + 1)"
    using bitlen_bounds [OF a0] bl
    by (simp_all add: k_def nat_diff_distrib' Suc_nat_eq_nat_zadd1 nat_add_distrib)
  from kb(1) small have "(2::int) ^ k < 2 ^ p" unfolding a_def by (rule le_less_trans)
  then have kp: "k < p" by simp
  have fl: "floor_log2 \<bar>of_int n\<bar> = int k"
  proof -
    have "\<bar>real_of_int n\<bar> = of_int a" by (simp add: a_def)
    moreover have "1 \<le> real_of_int a" using a0 by simp
    ultimately show ?thesis using bl by (simp add: floor_log2_def k_def)
  qed
  have e: "max (int k) (1 - emax) = int k" using e1 by simp
  have q: "pow2 (int k - int p + 1) = 1 / 2 ^ (p - 1 - k)"
  proof (cases "int k - int p + 1 = 0")
    case True
    then have "p - 1 - k = 0" by simp
    with True show ?thesis by (simp add: pow2_def)
  next
    case False
    then have neg: "int k - int p + 1 < 0" using kp by simp
    then have "nat (- (int k - int p + 1)) = p - 1 - k" by simp
    with neg show ?thesis by (simp add: pow2_def)
  qed
  have m: "\<bar>real_of_int n\<bar> / (1 / 2 ^ (p - 1 - k)) = of_int (a * 2 ^ (p - 1 - k))"
    by (simp add: a_def)
  have y: "of_int (round_half_even (\<bar>real_of_int n\<bar> / (1 / 2 ^ (p - 1 - k)))) * (1 / 2 ^ (p - 1 - k))
             = real_of_int a"
    unfolding m round_half_even_of_int by simp
  have "a < 2 ^ nat (emax + 1)"
  proof -
    have "p \<le> nat (emax + 1)" using p by simp
    then have "(2::int) ^ p \<le> 2 ^ nat (emax + 1)" by (rule power_increasing) simp
    with small show ?thesis unfolding a_def by (rule less_le_trans)
  qed
  then have "real_of_int a < 2 ^ nat (emax + 1)"
    by (metis of_int_less_iff of_int_numeral of_int_power)
  then have no: "\<not> pow2 (emax + 1) \<le> real_of_int a" using e1 by (simp add: pow2_def)
  have sg: "(if 0 < real_of_int n then real_of_int a else - real_of_int a) = real_of_int n"
    by (simp add: a_def)
  have nz: "real_of_int n \<noteq> 0" using False by simp
  show ?thesis
    by (simp only: ieee_round_def Let_def fl e q y nz no sg if_False)
qed

lemma round_double_of_int: "\<bar>n\<bar> < 2 ^ 53 \<Longrightarrow> round_double (of_int n) = Finite (of_int n)"
  unfolding round_double_def by (rule ieee_round_of_int) simp_all

section \<open>Properties of the input pipeline\<close>

subsection \<open>Key codes as table indices\<close>

lemma key_as_size_t_eq: "key_as_size_t key = nat (sint key mod 2 ^ 64)"
proof -
  have "uint (scast key :: 64 word) = sint key mod 2 ^ 64"
    by (subst scast_eq) (simp only: uint_word_of_int len_of_numeral_defs, simp)
  then show ?thesis
    unfolding key_as_size_t_def by (simp only: unat_eq_nat_uint)
qed

lemma sint32_bounds: "- (2 ^ 31) \<le> sint (key :: 32 word) \<and> sint key < 2 ^ 31"
  using sint_ge [of key] sint_lt [of key] by simp

lemma key_as_size_t_nonneg: "0 \<le> sint key \<Longrightarrow> key_as_size_t key = nat (sint key)"
  using sint32_bounds [of key] by (simp add: key_as_size_t_eq)

lemma key_as_size_t_neg: 
  assumes "sint key < 0" shows "key_as_size_t key = nat (sint key + 2 ^ 64)"
proof -
  have "sint key mod 2 ^ 64 = (sint key + 2 ^ 64) mod 2 ^ 64" by simp
  also have "\<dots> = sint key + 2 ^ 64" using sint32_bounds [of key] assms
    by (intro mod_pos_pos_trivial) auto
  finally show ?thesis by (simp add: key_as_size_t_eq)
qed

lemma key_as_size_t_neg_ge: "sint key < 0 \<Longrightarrow> 2 ^ 63 \<le> key_as_size_t key"
  using sint32_bounds [of key] by (simp add: key_as_size_t_neg)

lemma key_as_size_t_inj: "key_as_size_t a = key_as_size_t b \<longleftrightarrow> a = b"
proof
  assume eq: "key_as_size_t a = key_as_size_t b"
  have "sint a = sint b"
  proof (cases "sint a < 0"; cases "sint b < 0")
    assume "sint a < 0" "sint b < 0"
    then show ?thesis using eq sint32_bounds [of a] sint32_bounds [of b]
      by (simp add: key_as_size_t_neg)
  next
    assume "sint a < 0" "\<not> sint b < 0"
    then show ?thesis using eq sint32_bounds [of a] sint32_bounds [of b]
      by (simp add: key_as_size_t_neg key_as_size_t_nonneg)
  next
    assume "\<not> sint a < 0" "sint b < 0"
    then show ?thesis using eq sint32_bounds [of a] sint32_bounds [of b]
      by (simp add: key_as_size_t_neg key_as_size_t_nonneg)
  next
    assume "\<not> sint a < 0" "\<not> sint b < 0"
    then show ?thesis using eq 
      by (simp add: key_as_size_t_nonneg)
  qed
  then show "a = b" by (simp add: signed_word_eqI)
qed simp

lemma key_as_size_t_minus_one: "key_as_size_t (- 1) = 2 ^ 64 - 1"
  by (simp add: key_as_size_t_neg)

subsection \<open>The key table and the handler, field by field\<close>

lemmas handler_defs = OnGlfwWindowFocus_def OnGlfwCursorEnter_def OnGlfwCursorPos_def
     OnGlfwMouseButton_def OnGlfwScroll_def OnGlfwKey_def OnGlfwChar_def


lemma tracked_Set [simp]: "tracked (SetKeyEventIndex ks k v) key = tracked ks key"
  by (simp add: tracked_def SetKeyEventIndex_def)

lemma length_Set [simp]:
  "length (pressed_event_index (SetKeyEventIndex ks k v)) = length (pressed_event_index ks)"
  by (simp add: SetKeyEventIndex_def)

lemma Pressed_Set_same: "tracked ks key \<Longrightarrow> PressedEventIndex (SetKeyEventIndex ks key v) key = v"
  by (simp add: tracked_def SetKeyEventIndex_def PressedEventIndex_def)

lemma Pressed_Set_other: "k \<noteq> key \<Longrightarrow> PressedEventIndex (SetKeyEventIndex ks k v) key = PressedEventIndex ks key"
  by (simp add: SetKeyEventIndex_def PressedEventIndex_def key_as_size_t_inj)

lemma Pressed_untracked: "\<not> tracked ks key \<Longrightarrow> PressedEventIndex ks key = 0"
  by (simp add: tracked_def PressedEventIndex_def)

lemma Set_untracked: "\<not> tracked ks key \<Longrightarrow> SetKeyEventIndex ks key v = ks"
  by (simp add: tracked_def SetKeyEventIndex_def)

lemma push_event_fields [simp]:
  "event_index (push_event e s) = event_index s"
  "keys (push_event e s) = keys s"
  "all_keys (push_event e s) = all_keys s"
  "mouse_x (push_event e s) = mouse_x s"
  "mouse_y (push_event e s) = mouse_y s"
  "mod_keys (push_event e s) = mod_keys s"
  "mouse_buttons (push_event e s) = mouse_buttons s"
  "all_events (push_event e s) = all_events s @ [e]"
  "events (push_event e s) = (if child_wants_capture e then events s else events s @ [e])"
  by (simp_all add: push_event_def Let_def)

lemma OnGlfwKey_fst: "fst (OnGlfwKey ch w key sc action mods h) = fst (c_OnGlfwKey ch w key sc action mods (child h))"
  by (simp add: OnGlfwKey_def Let_def split: prod.splits)

lemma OnGlfwKey_all_keys:
  "all_keys (state (snd (OnGlfwKey ch w key sc action mods h))) =
     (if action = GLFW_PRESS then SetKeyEventIndex (all_keys (state h)) key (event_index (state h) + 1)
      else if action = GLFW_RELEASE then SetKeyEventIndex (all_keys (state h)) key 0
      else all_keys (state h))"
  by (simp add: OnGlfwKey_def Let_def split: prod.splits)

lemma OnGlfwKey_keys:
  "keys (state (snd (OnGlfwKey ch w key sc action mods h))) =
     (if fst (c_OnGlfwKey ch w key sc action mods (child h)) then keys (state h)
      else if action = GLFW_PRESS then SetKeyEventIndex (keys (state h)) key (event_index (state h) + 1)
      else if action = GLFW_RELEASE then SetKeyEventIndex (keys (state h)) key 0
      else keys (state h))"
  by (simp add: OnGlfwKey_def Let_def split: prod.splits)

lemma deliver_event_index: "event_index (state (deliver ch cb h)) = event_index (state h) + 1"
  by (cases cb) (simp_all add: deliver_def handler_defs Let_def split: prod.splits)

lemma deliver_not_key_tables:
  "\<forall>w key sc action mods. cb \<noteq> KeyCb w key sc action mods \<Longrightarrow>
   keys (state (deliver ch cb h)) = keys (state h) \<and> all_keys (state (deliver ch cb h)) = all_keys (state h)"
  by (cases cb) (simp_all add: deliver_def handler_defs Let_def split: prod.splits)

lemma ClearEvents_fields [simp]:
  "event_index (state (ClearEvents ch h)) = event_index (state h)"
  "keys (state (ClearEvents ch h)) = keys (state h)"
  "all_keys (state (ClearEvents ch h)) = all_keys (state h)"
  "mouse_x (state (ClearEvents ch h)) = mouse_x (state h)"
  "mouse_y (state (ClearEvents ch h)) = mouse_y (state h)"
  "events (state (ClearEvents ch h)) = []"
  "all_events (state (ClearEvents ch h)) = []"
  by (simp_all add: ClearEvents_def)

lemma run_ops_event_index:
  "event_index (state (run_ops ch ops h)) = event_index (state h) + of_nat (length (filter is_raw ops))"
proof (induction ops arbitrary: h)
  case Nil
  then show ?case by simp
next
  case (Cons op ops)
  then show ?case by (cases op) (simp_all add: deliver_event_index)
qed

lemma filter_is_raw_map_Raw: "filter is_raw (map Raw cbs) = map Raw cbs"
  by (induction cbs) simp_all

subsection \<open>The event counter\<close>

text \<open>
  Claim C1. Whatever the child answers, \<open>N\<close> raw callbacks add \<open>N\<close> to \<open>event_index\<close>:
  as a \<open>uint64_t\<close> always, and as a number whenever the sum stays below \<open>2^64\<close>. On a
  run that mixes callbacks and \<open>ClearEvents\<close> only the callbacks count, and
  \<open>ClearEvents\<close> leaves the counter as it is.
\<close>

theorem C1_event_index_counts_callbacks:
  "event_index (state (run_ops ch (map Raw cbs) h)) = event_index (state h) + of_nat (length cbs)
   \<and> event_index (state (run_ops ch ops h)) = event_index (state h) + of_nat (length (filter is_raw ops))
   \<and> event_index (state (ClearEvents ch h)) = event_index (state h)
   \<and> (unat (event_index (state h)) + length cbs < 2 ^ 64 \<longrightarrow>
        unat (event_index (state (run_ops ch (map Raw cbs) h))) = unat (event_index (state h)) + length cbs)"
proof -
  have raw: "event_index (state (run_ops ch (map Raw cbs) h)) = event_index (state h) + of_nat (length cbs)"
    using run_ops_event_index [of ch "map Raw cbs" h] by (simp add: filter_is_raw_map_Raw)
  have nat: "unat (event_index (state (run_ops ch (map Raw cbs) h))) = unat (event_index (state h)) + length cbs"
    if "unat (event_index (state h)) + length cbs < 2 ^ 64"
  proof -
    have "unat (event_index (state h) + of_nat (length cbs)) = (unat (event_index (state h)) + length cbs) mod 2 ^ 64"
      by (simp add: unat_word_ariths unat_of_nat mod_add_right_eq)
    with that show ?thesis by (simp add: raw)
  qed
  show ?thesis using raw nat run_ops_event_index [of ch ops h] by simp
qed

theorem C1_witness:
  "unat (event_index (state (run_ops NoOpHandler
      (map Raw [WindowFocus 0 1, KeyCb 0 65 0 GLFW_PRESS 0, CharCb 0 97]) (Handler_ctor ())))) = 3"
  using C1_event_index_counts_callbacks
    [of NoOpHandler "[WindowFocus 0 1, KeyCb 0 65 0 GLFW_PRESS 0, CharCb 0 97]" "Handler_ctor ()" "[]"]
  by (simp add: Handler_ctor_def State_ctor_def)

subsection \<open>Captured and uncaptured events\<close>

lemma on_callback_fst: "fst (on_callback ch cb h) = fst (child_call ch cb (child h))"
  by (cases cb) (simp_all add: handler_defs Let_def split: prod.splits)

lemma on_callback_last:
  "child_wants_capture (last (all_events (state (snd (on_callback ch cb h))))) = fst (on_callback ch cb h) \<and>
   all_events (state (snd (on_callback ch cb h))) =
     all_events (state h) @ [last (all_events (state (snd (on_callback ch cb h))))] \<and>
   events (state (snd (on_callback ch cb h))) =
     (if fst (on_callback ch cb h) then events (state h)
      else events (state h) @ [last (all_events (state (snd (on_callback ch cb h))))])"
  by (cases cb) (simp_all add: handler_defs Let_def split: prod.splits)

lemma on_callback_events:
  "\<exists>e. child_wants_capture e = fst (on_callback ch cb h) \<and>
        all_events (state (snd (on_callback ch cb h))) = all_events (state h) @ [e] \<and>
        events (state (snd (on_callback ch cb h))) =
          (if fst (on_callback ch cb h) then events (state h) else events (state h) @ [e])"
  using on_callback_last [of ch cb h] by blast

lemma deliver_uncaptured:
  assumes "events (state h) = uncaptured (all_events (state h))"
  shows "events (state (deliver ch cb h)) = uncaptured (all_events (state (deliver ch cb h)))"
proof -
  obtain e where e: "child_wants_capture e = fst (on_callback ch cb h)"
    "all_events (state (snd (on_callback ch cb h))) = all_events (state h) @ [e]"
    "events (state (snd (on_callback ch cb h))) =
          (if fst (on_callback ch cb h) then events (state h) else events (state h) @ [e])"
    using on_callback_events [of ch cb h] by blast
  then show ?thesis using assms by (simp add: deliver_def uncaptured_def)
qed

lemma run_ops_uncaptured:
  "events (state h) = uncaptured (all_events (state h)) \<Longrightarrow>
   events (state (run_ops ch ops h)) = uncaptured (all_events (state (run_ops ch ops h)))"
proof (induction ops arbitrary: h)
  case Nil
  then show ?case by simp
next
  case (Cons op ops)
  show ?case
  proof (cases op)
    case (Raw cb)
    then show ?thesis using Cons.IH [OF deliver_uncaptured [OF Cons.prems]] by simp
  next
    case Clear
    have "events (state (ClearEvents ch h)) = uncaptured (all_events (state (ClearEvents ch h)))"
      by (simp add: uncaptured_def)
    then show ?thesis using Cons.IH Clear by simp
  qed
qed

text \<open>
  Claim C2. A raw callback returns the child's answer. The event it builds carries that
  answer as its capture flag and is appended to \<open>all_events\<close>; it is appended to
  \<open>events\<close> when the child did not capture it, and \<open>events\<close> is left alone when it did.
  So from a new handler on, through callbacks and \<open>ClearEvents\<close>, \<open>events\<close> is
  \<open>all_events\<close> without the captured ones.
\<close>

theorem C2_capture_routing:
  "fst (on_callback ch cb h) = fst (child_call ch cb (child h))
   \<and> (\<exists>e. child_wants_capture e = fst (on_callback ch cb h) \<and>
        all_events (state (snd (on_callback ch cb h))) = all_events (state h) @ [e] \<and>
        events (state (snd (on_callback ch cb h))) =
          (if fst (on_callback ch cb h) then events (state h) else events (state h) @ [e]))
   \<and> events (state (run_ops ch ops (Handler_ctor c0))) =
        uncaptured (all_events (state (run_ops ch ops (Handler_ctor c0))))"
proof -
  have "events (state (Handler_ctor c0)) = uncaptured (all_events (state (Handler_ctor c0)))"
    by (simp add: Handler_ctor_def State_ctor_def uncaptured_def)
  from run_ops_uncaptured [OF this] on_callback_fst on_callback_events show ?thesis by blast
qed

theorem C2_witness:
  "map e_type (events (state (run_ops KeyGrabber [Raw (KeyCb 0 65 0 GLFW_PRESS 0), Raw (CharCb 0 97)] (Handler_ctor ())))) = [kChar]
   \<and> map e_type (all_events (state (run_ops KeyGrabber [Raw (KeyCb 0 65 0 GLFW_PRESS 0), Raw (CharCb 0 97)] (Handler_ctor ())))) = [kKey, kChar]"
  using C2_capture_routing [of KeyGrabber "KeyCb 0 65 0 GLFW_PRESS 0" "Handler_ctor ()" "[Raw (KeyCb 0 65 0 GLFW_PRESS 0), Raw (CharCb 0 97)]" "()"]
  by (simp add: KeyGrabber_def NoOpHandler_def Handler_ctor_def State_ctor_def deliver_def handler_defs push_event_def Let_def)

subsection \<open>Key press and release\<close>

lemma deliver_KeyCb_all_keys:
  "all_keys (state (deliver ch (KeyCb w key sc action mods) h)) =
     (if action = GLFW_PRESS then SetKeyEventIndex (all_keys (state h)) key (event_index (state h) + 1)
      else if action = GLFW_RELEASE then SetKeyEventIndex (all_keys (state h)) key 0
      else all_keys (state h))"
  by (simp add: deliver_def OnGlfwKey_all_keys)

lemma deliver_KeyCb_keys:
  "keys (state (deliver ch (KeyCb w key sc action mods) h)) =
     (if fst (c_OnGlfwKey ch w key sc action mods (child h)) then keys (state h)
      else if action = GLFW_PRESS then SetKeyEventIndex (keys (state h)) key (event_index (state h) + 1)
      else if action = GLFW_RELEASE then SetKeyEventIndex (keys (state h)) key 0
      else keys (state h))"
  by (simp add: deliver_def OnGlfwKey_keys)

lemma apply_op_untouched:
  assumes "\<not> touches_key key op"
  shows "PressedEventIndex (all_keys (state (apply_op ch op h))) key = PressedEventIndex (all_keys (state h)) key"
    and "PressedEventIndex (keys (state (apply_op ch op h))) key = PressedEventIndex (keys (state h)) key"
proof -
  show "PressedEventIndex (all_keys (state (apply_op ch op h))) key = PressedEventIndex (all_keys (state h)) key"
  proof (cases op)
    case (Raw cb)
    show ?thesis
    proof (cases "\<exists>w k sc a m. cb = KeyCb w k sc a m")
      case True
      then obtain w k sc a m where cb: "cb = KeyCb w k sc a m" by blast
      with assms Raw have "k \<noteq> key \<or> (a \<noteq> GLFW_PRESS \<and> a \<noteq> GLFW_RELEASE)" by auto
      then show ?thesis using Raw cb by (auto simp: deliver_KeyCb_all_keys Pressed_Set_other)
    next
      case False
      then show ?thesis using Raw deliver_not_key_tables [of cb ch h] by simp
    qed
  next
    case Clear
    then show ?thesis by simp
  qed
  show "PressedEventIndex (keys (state (apply_op ch op h))) key = PressedEventIndex (keys (state h)) key"
  proof (cases op)
    case (Raw cb)
    show ?thesis
    proof (cases "\<exists>w k sc a m. cb = KeyCb w k sc a m")
      case True
      then obtain w k sc a m where cb: "cb = KeyCb w k sc a m" by blast
      with assms Raw have "k \<noteq> key \<or> (a \<noteq> GLFW_PRESS \<and> a \<noteq> GLFW_RELEASE)" by auto
      then show ?thesis using Raw cb by (auto simp: deliver_KeyCb_keys Pressed_Set_other)
    next
      case False
      then show ?thesis using Raw deliver_not_key_tables [of cb ch h] by simp
    qed
  next
    case Clear
    then show ?thesis by simp
  qed
qed

lemma run_ops_untouched:
  "\<forall>op \<in> set ops. \<not> touches_key key op \<Longrightarrow>
   PressedEventIndex (all_keys (state (run_ops ch ops h))) key = PressedEventIndex (all_keys (state h)) key \<and>
   PressedEventIndex (keys (state (run_ops ch ops h))) key = PressedEventIndex (keys (state h)) key"
proof (induction ops arbitrary: h)
  case Nil
  then show ?case by simp
next
  case (Cons op ops)
  then show ?case using apply_op_untouched [of key op ch h] by simp
qed

text \<open>
  Claim C5, amended. For a key inside the table, a press callback stores the counter just
  incremented and a release callback stores 0: in \<open>all_keys\<close> always, in \<open>keys\<close> when the
  child did not capture the callback; a captured key callback leaves \<open>keys\<close> as it is. The
  stored index of a key stays the same through every run of operations that holds no
  press and no release callback of that key (the claim says: no release; a second press of
  the key stores the newer index).
\<close>

theorem C5_key_table_updates:
  "(tracked (all_keys (state h)) key \<and> action = GLFW_PRESS \<longrightarrow>
      PressedEventIndex (all_keys (state (deliver ch (KeyCb w key sc action mods) h))) key
        = event_index (state (deliver ch (KeyCb w key sc action mods) h)))
   \<and> (tracked (all_keys (state h)) key \<and> action = GLFW_RELEASE \<longrightarrow>
      PressedEventIndex (all_keys (state (deliver ch (KeyCb w key sc action mods) h))) key = 0)
   \<and> (tracked (keys (state h)) key \<and> action = GLFW_PRESS
        \<and> \<not> fst (c_OnGlfwKey ch w key sc action mods (child h)) \<longrightarrow>
      PressedEventIndex (keys (state (deliver ch (KeyCb w key sc action mods) h))) key
        = event_index (state (deliver ch (KeyCb w key sc action mods) h)))
   \<and> (tracked (keys (state h)) key \<and> action = GLFW_RELEASE
        \<and> \<not> fst (c_OnGlfwKey ch w key sc action mods (child h)) \<longrightarrow>
      PressedEventIndex (keys (state (deliver ch (KeyCb w key sc action mods) h))) key = 0)
   \<and> (fst (c_OnGlfwKey ch w key sc action mods (child h)) \<longrightarrow>
      keys (state (deliver ch (KeyCb w key sc action mods) h)) = keys (state h))
   \<and> event_index (state (deliver ch (KeyCb w key sc action mods) h)) = event_index (state h) + 1
   \<and> ((\<forall>op \<in> set ops. \<not> touches_key key op) \<longrightarrow>
      PressedEventIndex (all_keys (state (run_ops ch ops h))) key
        = PressedEventIndex (all_keys (state h)) key \<and>
      PressedEventIndex (keys (state (run_ops ch ops h))) key
        = PressedEventIndex (keys (state h)) key)"
proof (intro conjI impI)
  assume "tracked (all_keys (state h)) key \<and> action = GLFW_PRESS"
  then show "PressedEventIndex (all_keys (state (deliver ch (KeyCb w key sc action mods) h))) key
        = event_index (state (deliver ch (KeyCb w key sc action mods) h))"
    by (simp add: deliver_KeyCb_all_keys deliver_event_index Pressed_Set_same)
next
  assume "tracked (all_keys (state h)) key \<and> action = GLFW_RELEASE"
  then show "PressedEventIndex (all_keys (state (deliver ch (KeyCb w key sc action mods) h))) key = 0"
    by (simp add: deliver_KeyCb_all_keys Pressed_Set_same GLFW_PRESS_def GLFW_RELEASE_def)
next
  assume "tracked (keys (state h)) key \<and> action = GLFW_PRESS
        \<and> \<not> fst (c_OnGlfwKey ch w key sc action mods (child h))"
  then show "PressedEventIndex (keys (state (deliver ch (KeyCb w key sc action mods) h))) key
        = event_index (state (deliver ch (KeyCb w key sc action mods) h))"
    by (auto simp: deliver_KeyCb_keys deliver_event_index Pressed_Set_same)
next
  assume "tracked (keys (state h)) key \<and> action = GLFW_RELEASE
        \<and> \<not> fst (c_OnGlfwKey ch w key sc action mods (child h))"
  then show "PressedEventIndex (keys (state (deliver ch (KeyCb w key sc action mods) h))) key = 0"
    by (auto simp: deliver_KeyCb_keys Pressed_Set_same GLFW_PRESS_def GLFW_RELEASE_def)
next
  assume "fst (c_OnGlfwKey ch w key sc action mods (child h))"
  then show "keys (state (deliver ch (KeyCb w key sc action mods) h)) = keys (state h)"
    by (simp add: deliver_KeyCb_keys)
next
  show "event_index (state (deliver ch (KeyCb w key sc action mods) h)) = event_index (state h) + 1"
    by (rule deliver_event_index)
next
  assume a: "\<forall>op \<in> set ops. \<not> touches_key key op"
  from run_ops_untouched [OF a, of ch h]
  show "PressedEventIndex (all_keys (state (run_ops ch ops h))) key
        = PressedEventIndex (all_keys (state h)) key"
    by (rule conjunct1)
  from run_ops_untouched [OF a, of ch h]
  show "PressedEventIndex (keys (state (run_ops ch ops h))) key
        = PressedEventIndex (keys (state h)) key"
    by (rule conjunct2)
qed

lemma Handler_ctor_fields [simp]:
  "state (Handler_ctor c0) = State_ctor" "child (Handler_ctor c0) = c0"
  by (simp_all add: Handler_ctor_def)

lemma State_ctor_fields [simp]:
  "event_index State_ctor = 0" "events State_ctor = []" "all_events State_ctor = []"
  "mouse_x State_ctor = kDoubleInf" "mouse_y State_ctor = kDoubleInf"
  "length (pressed_event_index (keys State_ctor)) = 349"
  "length (pressed_event_index (all_keys State_ctor)) = 349"
  by (simp_all add: State_ctor_def)

lemma NoOpHandler_key [simp]: "c_OnGlfwKey NoOpHandler w k s a m c = (False, c)"
  by (simp add: NoOpHandler_def)

lemma KeyGrabber_key [simp]: "c_OnGlfwKey KeyGrabber w k s a m c = (True, c)"
  by (simp add: KeyGrabber_def)

lemma tracked_State_ctor: "tracked (all_keys State_ctor) 65" "tracked (keys State_ctor) 65"
  by (simp_all add: tracked_def key_as_size_t_nonneg)

theorem C5_witness:
  "PressedEventIndex (all_keys (state (deliver NoOpHandler (KeyCb 0 65 0 GLFW_PRESS 0) (Handler_ctor ())))) 65 = 1
   \<and> PressedEventIndex (keys (state (deliver NoOpHandler (KeyCb 0 65 0 GLFW_PRESS 0) (Handler_ctor ())))) 65 = 1
   \<and> PressedEventIndex (all_keys (state (deliver KeyGrabber (KeyCb 0 65 0 GLFW_PRESS 0) (Handler_ctor ())))) 65 = 1
   \<and> keys (state (deliver KeyGrabber (KeyCb 0 65 0 GLFW_PRESS 0) (Handler_ctor ()))) = keys State_ctor
   \<and> PressedEventIndex (all_keys (state (run_ops NoOpHandler [Raw (KeyCb 0 65 0 GLFW_REPEAT 0), Clear, Raw (KeyCb 0 66 0 GLFW_PRESS 0)]
          (deliver NoOpHandler (KeyCb 0 65 0 GLFW_PRESS 0) (Handler_ctor ()))))) 65 = 1"
  using C5_key_table_updates [of "Handler_ctor ()" 65 GLFW_PRESS NoOpHandler 0 0 0 "[]"]
    C5_key_table_updates [of "Handler_ctor ()" 65 GLFW_PRESS KeyGrabber 0 0 0 "[]"]
    C5_key_table_updates [of "deliver NoOpHandler (KeyCb 0 65 0 GLFW_PRESS 0) (Handler_ctor ())" 65 GLFW_PRESS NoOpHandler 0 0 0
       "[Raw (KeyCb 0 65 0 GLFW_REPEAT 0), Clear, Raw (KeyCb 0 66 0 GLFW_PRESS 0)]"]
    tracked_State_ctor
  by (simp add: deliver_event_index GLFW_PRESS_def GLFW_REPEAT_def GLFW_RELEASE_def)

text \<open>
  The claim as stated fails: after a press of key 65 the table holds 1; a second press,
  with no release in between, replaces it by 2.
\<close>

theorem C5_counterexample:
  "PressedEventIndex (all_keys (state (deliver NoOpHandler (KeyCb 0 65 0 GLFW_PRESS 0) (Handler_ctor ())))) 65 = 1
   \<and> PressedEventIndex (all_keys (state
        (deliver NoOpHandler (KeyCb 0 65 0 GLFW_PRESS 0)
          (deliver NoOpHandler (KeyCb 0 65 0 GLFW_PRESS 0) (Handler_ctor ()))))) 65 = 2"
  using tracked_State_ctor
  by (simp add: deliver_KeyCb_all_keys deliver_event_index Pressed_Set_same)

subsection \<open>Cursor position\<close>

lemma OnGlfwCursorPos_mouse:
  "mouse_x (state (snd (OnGlfwCursorPos ch w x y h))) = x"
  "mouse_y (state (snd (OnGlfwCursorPos ch w x y h))) = y"
  by (simp_all add: OnGlfwCursorPos_def Let_def split: prod.splits)

lemma OnGlfwCursorPos_last:
  "e_union (last (all_events (state (snd (OnGlfwCursorPos ch w x y h))))) =
     U_cursor_pos
       \<lparr>cp_x = x, cp_y = y,
        cp_xoffset = (if mouse_x (state h) = kDoubleInf \<or> mouse_y (state h) = kDoubleInf
                      then Finite 0 else dsub x (mouse_x (state h))),
        cp_yoffset = (if mouse_x (state h) = kDoubleInf \<or> mouse_y (state h) = kDoubleInf
                      then Finite 0 else dsub y (mouse_y (state h))),
        cp_buttons = mouse_buttons (state h), cp_mods = mod_keys (state h)\<rparr>"
  by (simp add: OnGlfwCursorPos_def Let_def split: prod.splits)

lemma dsub_whole:
  "\<bar>a - b\<bar> < 2 ^ 53 \<Longrightarrow> dsub (Finite (of_int a)) (Finite (of_int b)) = Finite (of_int (a - b))"
  using round_double_of_int [of "a - b"] by simp

text \<open>
  Claim C6. The event of a cursor-position callback reports the delta (0, 0) when the
  stored position is unknown (the code takes it as unknown when either coordinate is the
  sentinel \<open>kDoubleInf\<close>), and otherwise the new position minus the stored one, coordinate
  by coordinate: the subtraction of the code, on doubles. In both cases the stored
  position becomes the new one.
\<close>

theorem C6_cursor_delta:
  "cursor_delta (last (all_events (state (snd (OnGlfwCursorPos ch w x y h))))) =
     (if mouse_x (state h) = kDoubleInf \<or> mouse_y (state h) = kDoubleInf
      then Some (Finite 0, Finite 0)
      else Some (dsub x (mouse_x (state h)), dsub y (mouse_y (state h))))
   \<and> mouse_x (state (snd (OnGlfwCursorPos ch w x y h))) = x
   \<and> mouse_y (state (snd (OnGlfwCursorPos ch w x y h))) = y
   \<and> all_events (state (snd (OnGlfwCursorPos ch w x y h))) =
        all_events (state h) @ [last (all_events (state (snd (OnGlfwCursorPos ch w x y h))))]"
  using on_callback_last [of ch "CursorPosCb w x y" h]
  by (simp add: OnGlfwCursorPos_last OnGlfwCursorPos_mouse)

theorem C6_witness:
  "cursor_delta (last (all_events (state (snd (OnGlfwCursorPos NoOpHandler 0 (Finite 10) (Finite 20) (Handler_ctor ()))))))
     = Some (Finite 0, Finite 0)
   \<and> cursor_delta (last (all_events (state (snd (OnGlfwCursorPos NoOpHandler 0 (Finite 13) (Finite 18)
         (snd (OnGlfwCursorPos NoOpHandler 0 (Finite 10) (Finite 20) (Handler_ctor ()))))))))
     = Some (Finite 3, Finite (- 2))"
  using C6_cursor_delta [of NoOpHandler 0 "Finite 10" "Finite 20" "Handler_ctor ()"]
    C6_cursor_delta [of NoOpHandler 0 "Finite 13" "Finite 18"
       "snd (OnGlfwCursorPos NoOpHandler 0 (Finite 10) (Finite 20) (Handler_ctor ()))"]
    round_double_of_int [of 3] round_double_of_int [of "- 2"]
  by (simp add: kDoubleInf_def)

subsection \<open>Window focus\<close>

lemma OnGlfwWindowFocus_mouse:
  "mouse_x (state (snd (OnGlfwWindowFocus ch w focused h))) = (if focused \<noteq> 0 then kDoubleInf else mouse_x (state h))"
  "mouse_y (state (snd (OnGlfwWindowFocus ch w focused h))) = (if focused \<noteq> 0 then kDoubleInf else mouse_y (state h))"
  by (simp_all add: OnGlfwWindowFocus_def Let_def split: prod.splits)

lemma apply_op_mouse_kept:
  "\<not> is_cursor_pos op \<Longrightarrow> mouse_x (state h) = kDoubleInf \<and> mouse_y (state h) = kDoubleInf \<Longrightarrow>
   mouse_x (state (apply_op ch op h)) = kDoubleInf \<and> mouse_y (state (apply_op ch op h)) = kDoubleInf"
proof (cases op)
  case (Raw cb)
  assume "\<not> is_cursor_pos op" "mouse_x (state h) = kDoubleInf \<and> mouse_y (state h) = kDoubleInf"
  then show ?thesis using Raw
    by (cases cb) (simp_all add: deliver_def handler_defs Let_def split: prod.splits)
next
  case Clear
  assume "mouse_x (state h) = kDoubleInf \<and> mouse_y (state h) = kDoubleInf"
  then show ?thesis using Clear by simp
qed

lemma run_ops_mouse_kept:
  "\<forall>op \<in> set ops. \<not> is_cursor_pos op \<Longrightarrow> mouse_x (state h) = kDoubleInf \<and> mouse_y (state h) = kDoubleInf \<Longrightarrow>
   mouse_x (state (run_ops ch ops h)) = kDoubleInf \<and> mouse_y (state (run_ops ch ops h)) = kDoubleInf"
proof (induction ops arbitrary: h)
  case Nil
  then show ?case by simp
next
  case (Cons op ops)
  then show ?case using apply_op_mouse_kept [of op h ch] by simp
qed

text \<open>
  Claim C10. A focus callback with \<open>focused\<close> non-zero sets the stored mouse position to
  the sentinel; the next cursor-position callback, after any operations that are not
  cursor-position callbacks, reports the delta (0, 0). A focus callback with \<open>focused\<close>
  zero leaves the stored position as it is.
\<close>

theorem C10_focus_resets_mouse:
  "(focused \<noteq> 0 \<longrightarrow>
      mouse_x (state (deliver ch (WindowFocus w focused) h)) = kDoubleInf \<and>
      mouse_y (state (deliver ch (WindowFocus w focused) h)) = kDoubleInf)
   \<and> (focused \<noteq> 0 \<and> (\<forall>op \<in> set ops. \<not> is_cursor_pos op) \<longrightarrow>
      cursor_delta (last (all_events (state
        (deliver ch (CursorPosCb w' x y) (run_ops ch ops (deliver ch (WindowFocus w focused) h))))))
        = Some (Finite 0, Finite 0))
   \<and> (focused = 0 \<longrightarrow>
      mouse_x (state (deliver ch (WindowFocus w focused) h)) = mouse_x (state h) \<and>
      mouse_y (state (deliver ch (WindowFocus w focused) h)) = mouse_y (state h))"
proof (intro conjI impI)
  assume "focused \<noteq> 0"
  then show "mouse_x (state (deliver ch (WindowFocus w focused) h)) = kDoubleInf"
    "mouse_y (state (deliver ch (WindowFocus w focused) h)) = kDoubleInf"
    by (simp_all add: deliver_def OnGlfwWindowFocus_mouse)
next
  assume a: "focused \<noteq> 0 \<and> (\<forall>op \<in> set ops. \<not> is_cursor_pos op)"
  then have "mouse_x (state (deliver ch (WindowFocus w focused) h)) = kDoubleInf \<and>
      mouse_y (state (deliver ch (WindowFocus w focused) h)) = kDoubleInf"
    by (simp add: deliver_def OnGlfwWindowFocus_mouse)
  with a have "mouse_x (state (run_ops ch ops (deliver ch (WindowFocus w focused) h))) = kDoubleInf \<and>
      mouse_y (state (run_ops ch ops (deliver ch (WindowFocus w focused) h))) = kDoubleInf"
    by (intro run_ops_mouse_kept) simp_all
  then show "cursor_delta (last (all_events (state
        (deliver ch (CursorPosCb w' x y) (run_ops ch ops (deliver ch (WindowFocus w focused) h))))))
        = Some (Finite 0, Finite 0)"
    by (simp add: deliver_def OnGlfwCursorPos_last)
next
  assume "focused = 0"
  then show "mouse_x (state (deliver ch (WindowFocus w focused) h)) = mouse_x (state h)"
    "mouse_y (state (deliver ch (WindowFocus w focused) h)) = mouse_y (state h)"
    by (simp_all add: deliver_def OnGlfwWindowFocus_mouse)
qed

theorem C10_witness:
  "cursor_delta (last (all_events (state
        (deliver NoOpHandler (CursorPosCb 0 (Finite 7) (Finite 9))
          (run_ops NoOpHandler [Raw (KeyCb 0 65 0 GLFW_PRESS 0), Clear]
            (deliver NoOpHandler (WindowFocus 0 1)
              (deliver NoOpHandler (CursorPosCb 0 (Finite 1) (Finite 2)) (Handler_ctor ()))))))))
        = Some (Finite 0, Finite 0)
   \<and> mouse_x (state (deliver NoOpHandler (WindowFocus 0 0)
              (deliver NoOpHandler (CursorPosCb 0 (Finite 1) (Finite 2)) (Handler_ctor ())))) = Finite 1"
  using C10_focus_resets_mouse [of 1 NoOpHandler 0 "deliver NoOpHandler (CursorPosCb 0 (Finite 1) (Finite 2)) (Handler_ctor ())"
      "[Raw (KeyCb 0 65 0 GLFW_PRESS 0), Clear]" 0 "Finite 7" "Finite 9"]
    C10_focus_resets_mouse [of 0 NoOpHandler 0 "deliver NoOpHandler (CursorPosCb 0 (Finite 1) (Finite 2)) (Handler_ctor ())"
      "[]" 0 "Finite 7" "Finite 9"]
  by (simp add: deliver_def OnGlfwCursorPos_mouse)

subsection \<open>Key codes outside the table\<close>

lemma checked_agree:
  "PressedEventIndex_checked ks key = Inr (PressedEventIndex ks key)"
  "SetKeyEventIndex_checked ks key v = Inr (SetKeyEventIndex ks key v)"
  by (simp_all add: PressedEventIndex_checked_def PressedEventIndex_def SetKeyEventIndex_checked_def
       SetKeyEventIndex_def vec_read_def vec_write_def)

lemma untracked_iff:
  assumes "length (pressed_event_index ks) \<le> 2 ^ 31"
  shows "tracked ks key \<longleftrightarrow> 0 \<le> sint key \<and> sint key < int (length (pressed_event_index ks))"
proof (cases "sint key < 0")
  case True
  have "(2::nat) ^ 31 < 2 ^ 63" by simp
  with assms key_as_size_t_neg_ge [OF True] have "\<not> tracked ks key"
    unfolding tracked_def by linarith
  with True show ?thesis by simp
next
  case False
  then show ?thesis by (auto simp: tracked_def key_as_size_t_nonneg)
qed

lemma OnGlfwKey_checked_ok:
  "OnGlfwKey_checked ch w key sc action mods h = Inr (OnGlfwKey ch w key sc action mods h)"
  by (simp add: OnGlfwKey_checked_def OnGlfwKey_def checked_agree Let_def split_beta)

lemma on_callback_checked_ok: "on_callback_checked ch cb h = Inr (on_callback ch cb h)"
  by (cases cb) (simp_all add: OnGlfwKey_checked_ok)

lemma run_ops_checked_ok: "run_ops_checked ch ops h = Inr (run_ops ch ops h)"
proof (induction ops arbitrary: h)
  case Nil
  then show ?case by simp
next
  case (Cons op ops)
  then show ?case by (cases op) (simp_all add: on_callback_checked_ok deliver_def)
qed

lemma KeyboardState_ctor_ok:
  "- 1 \<le> sint max_key \<and> sint max_key < 2 ^ 31 - 1 \<Longrightarrow>
   KeyboardState_ctor max_key = Some \<lparr>pressed_event_index = replicate (nat (sint max_key + 1)) 0\<rparr>"
  by (simp add: KeyboardState_ctor_def)

lemma KeyboardState_ctor_throws:
  "sint max_key < - 1 \<or> sint max_key = 2 ^ 31 - 1 \<Longrightarrow> KeyboardState_ctor max_key = None"
  by (auto simp: KeyboardState_ctor_def)

text \<open>
  Claim C9, amended. For a key code outside the table, negative ones included (the table
  has at most \<open>2^31\<close> entries, what a 32-bit \<open>max_key\<close> can ask for), \<open>SetKeyEventIndex\<close>
  returns the table unchanged, \<open>PressedEventIndex\<close> is 0 and \<open>IsPressed\<close> is false. For
  every key code the two table operations, with the vector access checked, return a value
  and never a fault, and the table keeps its length; a key callback with a code outside
  the tables leaves both tables of the handler unchanged. Every callback, on every input,
  returns a value and never a fault, and so does every run of callbacks and \<open>ClearEvents\<close>.
  The one operation that can fail is the constructor of \<open>KeyboardState\<close>: it returns a
  table for \<open>max_key\<close> from -1 to \<open>2^31 - 2\<close>, and throws for \<open>max_key\<close> below -1 and for
  \<open>max_key = 2^31 - 1\<close>.
\<close>

theorem C9_out_of_range_keys_ignored:
  "(length (pressed_event_index ks) \<le> 2 ^ 31 \<and>
      (sint key < 0 \<or> int (length (pressed_event_index ks)) \<le> sint key) \<longrightarrow>
        SetKeyEventIndex ks key v = ks \<and> PressedEventIndex ks key = 0 \<and> \<not> IsPressed ks key \<and>
        SetKeyEventIndex_checked ks key v = Inr ks \<and> PressedEventIndex_checked ks key = Inr 0)
   \<and> PressedEventIndex_checked ks k = Inr (PressedEventIndex ks k)
   \<and> SetKeyEventIndex_checked ks k v = Inr (SetKeyEventIndex ks k v)
   \<and> length (pressed_event_index (SetKeyEventIndex ks k v)) = length (pressed_event_index ks)
   \<and> (length (pressed_event_index (keys (state h))) \<le> 2 ^ 31 \<and>
      length (pressed_event_index (all_keys (state h))) \<le> 2 ^ 31 \<and>
      (sint key < 0 \<or> (int (length (pressed_event_index (keys (state h)))) \<le> sint key \<and>
                       int (length (pressed_event_index (all_keys (state h)))) \<le> sint key)) \<longrightarrow>
        keys (state (deliver ch (KeyCb w key sc action mods) h)) = keys (state h) \<and>
        all_keys (state (deliver ch (KeyCb w key sc action mods) h)) = all_keys (state h))
   \<and> on_callback_checked ch cb h = Inr (on_callback ch cb h)
   \<and> run_ops_checked ch ops h = Inr (run_ops ch ops h)
   \<and> (- 1 \<le> sint max_key \<and> sint max_key < 2 ^ 31 - 1 \<longrightarrow>
        KeyboardState_ctor max_key =
          Some \<lparr>pressed_event_index = replicate (nat (sint max_key + 1)) 0\<rparr>)
   \<and> (sint max_key < - 1 \<or> sint max_key = 2 ^ 31 - 1 \<longrightarrow> KeyboardState_ctor max_key = None)"
proof (intro conjI impI)
  assume a: "length (pressed_event_index ks) \<le> 2 ^ 31 \<and>
      (sint key < 0 \<or> int (length (pressed_event_index ks)) \<le> sint key)"
  then have u: "\<not> tracked ks key" using untracked_iff [of ks key] by auto
  then show "SetKeyEventIndex ks key v = ks" by (rule Set_untracked)
  from u show p: "PressedEventIndex ks key = 0" by (rule Pressed_untracked)
  then show "\<not> IsPressed ks key" by (simp add: IsPressed_def)
  from u show "SetKeyEventIndex_checked ks key v = Inr ks" by (simp add: checked_agree Set_untracked)
  from p show "PressedEventIndex_checked ks key = Inr 0" by (simp add: checked_agree)
next
  show "PressedEventIndex_checked ks k = Inr (PressedEventIndex ks k)" by (rule checked_agree)
  show "SetKeyEventIndex_checked ks k v = Inr (SetKeyEventIndex ks k v)" by (rule checked_agree)
  show "length (pressed_event_index (SetKeyEventIndex ks k v)) = length (pressed_event_index ks)" by simp
next
  assume a: "length (pressed_event_index (keys (state h))) \<le> 2 ^ 31 \<and>
      length (pressed_event_index (all_keys (state h))) \<le> 2 ^ 31 \<and>
      (sint key < 0 \<or> (int (length (pressed_event_index (keys (state h)))) \<le> sint key \<and>
                       int (length (pressed_event_index (all_keys (state h)))) \<le> sint key))"
  then have u: "\<not> tracked (keys (state h)) key" "\<not> tracked (all_keys (state h)) key"
    using untracked_iff [of "keys (state h)" key] untracked_iff [of "all_keys (state h)" key] by auto
  from u show "keys (state (deliver ch (KeyCb w key sc action mods) h)) = keys (state h)"
    by (simp add: deliver_KeyCb_keys Set_untracked)
  from u show "all_keys (state (deliver ch (KeyCb w key sc action mods) h)) = all_keys (state h)"
    by (simp add: deliver_KeyCb_all_keys Set_untracked)
next
  show "on_callback_checked ch cb h = Inr (on_callback ch cb h)"
    by (rule on_callback_checked_ok)
  show "run_ops_checked ch ops h = Inr (run_ops ch ops h)"
    by (rule run_ops_checked_ok)
next
  assume "- 1 \<le> sint max_key \<and> sint max_key < 2 ^ 31 - 1"
  then show "KeyboardState_ctor max_key =
          Some \<lparr>pressed_event_index = replicate (nat (sint max_key + 1)) 0\<rparr>"
    by (rule KeyboardState_ctor_ok)
next
  assume "sint max_key < - 1 \<or> sint max_key = 2 ^ 31 - 1"
  then show "KeyboardState_ctor max_key = None"
    by (rule KeyboardState_ctor_throws)
qed

theorem C9_witness:
  "SetKeyEventIndex (keys State_ctor) (- 1) 7 = keys State_ctor
   \<and> PressedEventIndex (keys State_ctor) (- 1) = 0
   \<and> SetKeyEventIndex_checked (keys State_ctor) 349 7 = Inr (keys State_ctor)
   \<and> \<not> IsPressed (keys State_ctor) 349
   \<and> all_keys (state (deliver NoOpHandler (KeyCb 0 (- 1) 0 GLFW_PRESS 0) (Handler_ctor ()))) = all_keys State_ctor
   \<and> on_callback_checked NoOpHandler (MouseButtonCb 0 7 GLFW_PRESS 0) (Handler_ctor ())
       = Inr (on_callback NoOpHandler (MouseButtonCb 0 7 GLFW_PRESS 0) (Handler_ctor ()))
   \<and> KeyboardState_ctor GLFW_KEY_LAST = Some (keys State_ctor)
   \<and> KeyboardState_ctor (- 2) = None"
  using C9_out_of_range_keys_ignored [of "keys State_ctor" "- 1" 7 0 "Handler_ctor ()" NoOpHandler 0 0 GLFW_PRESS 0
      "MouseButtonCb 0 7 GLFW_PRESS 0" "[]" GLFW_KEY_LAST]
    C9_out_of_range_keys_ignored [of "keys State_ctor" 349 7 0 "Handler_ctor ()" NoOpHandler 0 0 GLFW_PRESS 0
      "MouseButtonCb 0 7 GLFW_PRESS 0" "[]" "- 2"]
  by (simp add: GLFW_KEY_LAST_def State_ctor_def)

text \<open>
  The claim as stated fails: \<open>KeyboardState(-5)\<close> asks for a vector of \<open>2^64 - 4\<close> entries
  and throws, and so does \<open>KeyboardState(2147483647)\<close>, whose \<open>max_key + 1\<close> is the smallest
  \<open>int32_t\<close>.
\<close>

theorem C9_counterexample:
  "KeyboardState_ctor (- 5) = None \<and> KeyboardState_ctor 2147483647 = None"
  by (simp add: KeyboardState_ctor_def)

subsection \<open>The key axis\<close>

lemma Axis_antisym: "Axis ks a b = - Axis ks b a"
  by (simp add: Axis_def Let_def)

lemma Axis_zero_iff:
  "Axis ks a b = 0 \<longleftrightarrow>
     (ucast (PressedEventIndex ks a) :: 32 word) = ucast (PressedEventIndex ks b)"
proof -
  have "(ucast (PressedEventIndex ks a) :: 32 word) = ucast (PressedEventIndex ks b) \<longleftrightarrow>
        sint (ucast (PressedEventIndex ks a) :: 32 word) = sint (ucast (PressedEventIndex ks b) :: 32 word)"
    by (rule word_eq_iff_signed)
  then show ?thesis by (auto simp: Axis_def Let_def)
qed

lemma ucast_64_32_inj:
  fixes p q :: "64 word"
  assumes "unat p < 2 ^ 32" "unat q < 2 ^ 32" "(ucast p :: 32 word) = ucast q"
  shows "p = q"
proof -
  have "unat (ucast p :: 32 word) = unat p"
    using assms(1) by (simp add: unsigned_ucast_eq take_bit_nat_eq_self)
  moreover have "unat (ucast q :: 32 word) = unat q"
    using assms(2) by (simp add: unsigned_ucast_eq take_bit_nat_eq_self)
  ultimately have "unat p = unat q" using assms(3) by simp
  then show ?thesis by (rule unsigned_word_eqI)
qed

lemma table_inv_mono:
  "table_inv ei ks \<Longrightarrow> unat ei \<le> unat ei' \<Longrightarrow> table_inv ei' ks"
  unfolding table_inv_def by (meson le_trans)

lemma table_inv_release:
  assumes "table_inv ei ks"
  shows "table_inv ei (SetKeyEventIndex ks k 0)"
proof (cases "tracked ks k")
  case False
  then show ?thesis using assms by (simp add: Set_untracked)
next
  case True
  let ?t = "pressed_event_index ks"
  let ?n = "key_as_size_t k"
  have s: "pressed_event_index (SetKeyEventIndex ks k 0) = ?t[?n := 0]"
    using True by (simp add: SetKeyEventIndex_def tracked_def)
  show ?thesis
    unfolding table_inv_def s
  proof (intro conjI allI impI)
    fix i assume "i < length (?t[?n := 0])"
    then show "unat (?t[?n := 0] ! i) \<le> unat ei"
      using assms by (cases "i = ?n") (simp_all add: table_inv_def)
  next
    fix i j
    assume "i < length (?t[?n := 0])" "j < length (?t[?n := 0])"
      "i \<noteq> j \<and> ?t[?n := 0] ! i = ?t[?n := 0] ! j"
    then show "?t[?n := 0] ! i = 0"
      using assms unfolding table_inv_def
      by (cases "i = ?n"; cases "j = ?n") (auto simp: nth_list_update)
  qed
qed

lemma table_inv_press:
  assumes "table_inv ei ks" "unat ei + 1 < 2 ^ 64"
  shows "table_inv (ei + 1) (SetKeyEventIndex ks k (ei + 1))"
proof (cases "tracked ks k")
  case False
  have "unat ei \<le> unat (ei + 1)" using assms(2) by (simp add: unat_word_ariths)
  with False assms(1) show ?thesis by (simp add: Set_untracked table_inv_mono)
next
  case True
  let ?t = "pressed_event_index ks"
  let ?n = "key_as_size_t k"
  have u: "unat (ei + 1) = unat ei + 1" using assms(2) by (simp add: unat_word_ariths)
  have s: "pressed_event_index (SetKeyEventIndex ks k (ei + 1)) = ?t[?n := ei + 1]"
    using True by (simp add: SetKeyEventIndex_def tracked_def)
  have old: "\<And>i. i < length ?t \<Longrightarrow> unat (?t ! i) \<le> unat ei"
    using assms(1) by (simp add: table_inv_def)
  have neq: "\<And>i. i < length ?t \<Longrightarrow> ?t ! i \<noteq> ei + 1"
  proof
    fix i assume "i < length ?t" "?t ! i = ei + 1"
    with old [of i] u show False by simp
  qed
  show ?thesis
    unfolding table_inv_def s
  proof (intro conjI allI impI)
    fix i assume "i < length (?t[?n := ei + 1])"
    then show "unat (?t[?n := ei + 1] ! i) \<le> unat (ei + 1)"
      using old [of i] u by (cases "i = ?n") simp_all
  next
    fix i j
    assume a: "i < length (?t[?n := ei + 1])" "j < length (?t[?n := ei + 1])"
      "i \<noteq> j \<and> ?t[?n := ei + 1] ! i = ?t[?n := ei + 1] ! j"
    show "?t[?n := ei + 1] ! i = 0"
    proof (cases "i = ?n")
      case True
      with a neq [of j] show ?thesis by (auto simp: nth_list_update)
    next
      case False
      note Fi = this
      show ?thesis
      proof (cases "j = ?n")
        case True
        with a neq [of i] Fi show ?thesis by (auto simp: nth_list_update)
      next
        case False
        with Fi a assms(1) show ?thesis unfolding table_inv_def by (auto simp: nth_list_update)
      qed
    qed
  qed
qed

lemma deliver_handler_inv:
  assumes "handler_inv h" "unat (event_index (state h)) + 1 < 2 ^ 64"
  shows "handler_inv (deliver ch cb h)"
proof -
  let ?ei = "event_index (state h)"
  have le: "unat ?ei \<le> unat (?ei + 1)" using assms(2) by (simp add: unat_word_ariths)
  have k: "table_inv ?ei (keys (state h))" and ak: "table_inv ?ei (all_keys (state h))"
    using assms(1) by (simp_all add: handler_inv_def)
  show ?thesis
  proof (cases "\<exists>w key sc action mods. cb = KeyCb w key sc action mods")
    case False
    then show ?thesis using deliver_not_key_tables [of cb ch h] k ak le
      by (simp add: handler_inv_def deliver_event_index table_inv_mono)
  next
    case True
    then obtain w key sc action mods where cb: "cb = KeyCb w key sc action mods" by blast
    have step: "table_inv (?ei + 1) ks \<and> table_inv (?ei + 1) (SetKeyEventIndex ks key (?ei + 1)) \<and>
        table_inv (?ei + 1) (SetKeyEventIndex ks key 0)" if "table_inv ?ei ks" for ks
      using that le assms(2) table_inv_mono [of ?ei ks "?ei + 1"] table_inv_press [of ?ei ks key]
        table_inv_mono [OF table_inv_release, of ?ei ks "?ei + 1" key]
      by blast
    have "table_inv (?ei + 1) (keys (state (deliver ch cb h)))"
      unfolding cb deliver_KeyCb_keys using step [OF k] by (simp only: if_split) blast
    moreover have "table_inv (?ei + 1) (all_keys (state (deliver ch cb h)))"
      unfolding cb deliver_KeyCb_all_keys using step [OF ak] by (simp only: if_split) blast
    ultimately show ?thesis by (simp add: handler_inv_def deliver_event_index)
  qed
qed

lemma run_ops_handler_inv:
  "handler_inv h \<Longrightarrow> unat (event_index (state h)) + length (filter is_raw ops) < 2 ^ 64 \<Longrightarrow>
   handler_inv (run_ops ch ops h)"
proof (induction ops arbitrary: h)
  case Nil
  then show ?case by simp
next
  case (Cons op ops)
  show ?case
  proof (cases op)
    case (Raw cb)
    have b: "unat (event_index (state h)) + 1 < 2 ^ 64" using Cons.prems(2) Raw by simp
    then have "unat (event_index (state h) + 1) = unat (event_index (state h)) + 1"
      by (simp add: unat_word_ariths)
    then have "unat (event_index (state (deliver ch cb h))) + length (filter is_raw ops) < 2 ^ 64"
      using Cons.prems(2) Raw by (simp add: deliver_event_index)
    from Cons.IH [OF deliver_handler_inv [OF Cons.prems(1) b] this] show ?thesis using Raw by simp
  next
    case Clear
    have "handler_inv (ClearEvents ch h)" using Cons.prems(1) by (simp add: handler_inv_def)
    moreover have "unat (event_index (state (ClearEvents ch h))) + length (filter is_raw ops) < 2 ^ 64"
      using Cons.prems(2) Clear by simp
    ultimately show ?thesis using Cons.IH Clear by simp
  qed
qed

lemma handler_inv_ctor: "handler_inv (Handler_ctor c0)"
  by (simp add: handler_inv_def table_inv_def State_ctor_def)

lemma Axis_zero_released:
  assumes inv: "table_inv ei ks" and small: "unat ei < 2 ^ 32" and ne: "a \<noteq> b"
  shows "Axis ks a b = 0 \<longleftrightarrow> \<not> IsPressed ks a \<and> \<not> IsPressed ks b"
proof
  assume "\<not> IsPressed ks a \<and> \<not> IsPressed ks b"
  then show "Axis ks a b = 0" by (simp add: IsPressed_def Axis_def)
next
  assume z: "Axis ks a b = 0"
  let ?t = "pressed_event_index ks"
  have bound: "unat (PressedEventIndex ks k) < 2 ^ 32" for k
  proof (cases "tracked ks k")
    case True
    then have "unat (PressedEventIndex ks k) \<le> unat ei"
      using inv by (simp add: PressedEventIndex_def tracked_def table_inv_def)
    with small show ?thesis by simp
  next
    case False
    then show ?thesis by (simp add: Pressed_untracked)
  qed
  from z have eq: "PressedEventIndex ks a = PressedEventIndex ks b"
    using ucast_64_32_inj [OF bound bound] by (simp add: Axis_zero_iff)
  have "PressedEventIndex ks a = 0"
  proof (cases "tracked ks a \<and> tracked ks b")
    case True
    moreover have "key_as_size_t a \<noteq> key_as_size_t b" using ne by (simp add: key_as_size_t_inj)
    ultimately show ?thesis using inv eq
      unfolding table_inv_def PressedEventIndex_def tracked_def by auto
  next
    case False
    then show ?thesis using eq Pressed_untracked [of ks a] Pressed_untracked [of ks b] by auto
  qed
  with eq show "\<not> IsPressed ks a \<and> \<not> IsPressed ks b" by (simp add: IsPressed_def)
qed

text \<open>
  What holds of \<open>Axis\<close>. \<open>Axis a b = - Axis b a\<close> for every table and every two keys, and
  \<open>Axis a b = 0\<close> when both keys are released. For two different keys, in either table of
  a handler whose counter is still below \<open>2^32\<close>, \<open>Axis a b = 0\<close> holds exactly when both
  keys are released.
\<close>

lemma Axis_while_index_fits_int:
  "Axis ks a b = - Axis ks b a
   \<and> (\<not> IsPressed ks a \<and> \<not> IsPressed ks b \<longrightarrow> Axis ks a b = 0)
   \<and> (a \<noteq> b \<and> length (filter is_raw ops) < 2 ^ 32 \<longrightarrow>
        (Axis (keys (state (run_ops ch ops (Handler_ctor c0)))) a b = 0 \<longleftrightarrow>
           \<not> IsPressed (keys (state (run_ops ch ops (Handler_ctor c0)))) a \<and>
           \<not> IsPressed (keys (state (run_ops ch ops (Handler_ctor c0)))) b) \<and>
        (Axis (all_keys (state (run_ops ch ops (Handler_ctor c0)))) a b = 0 \<longleftrightarrow>
           \<not> IsPressed (all_keys (state (run_ops ch ops (Handler_ctor c0)))) a \<and>
           \<not> IsPressed (all_keys (state (run_ops ch ops (Handler_ctor c0)))) b))"
proof (intro conjI impI)
  show "Axis ks a b = - Axis ks b a" by (rule Axis_antisym)
next
  assume "\<not> IsPressed ks a \<and> \<not> IsPressed ks b"
  then show "Axis ks a b = 0" by (simp add: IsPressed_def Axis_def)
next
  assume a: "a \<noteq> b \<and> length (filter is_raw ops) < 2 ^ 32"
  let ?h = "run_ops ch ops (Handler_ctor c0)"
  have "(2::nat) ^ 32 < 2 ^ 64" by simp
  with a have n: "length (filter is_raw ops) < 2 ^ 64" by linarith
  then have inv: "handler_inv ?h"
    by (intro run_ops_handler_inv handler_inv_ctor) simp
  have "event_index (state ?h) = of_nat (length (filter is_raw ops))"
    by (simp add: run_ops_event_index)
  then have "unat (event_index (state ?h)) = length (filter is_raw ops)"
    using n by (simp add: unat_of_nat)
  with a have small: "unat (event_index (state ?h)) < 2 ^ 32" by simp
  from a have ne: "a \<noteq> b" by simp
  show "Axis (keys (state ?h)) a b = 0 \<longleftrightarrow>
           \<not> IsPressed (keys (state ?h)) a \<and> \<not> IsPressed (keys (state ?h)) b"
    using inv by (intro Axis_zero_released [OF _ small ne]) (simp add: handler_inv_def)
  show "Axis (all_keys (state ?h)) a b = 0 \<longleftrightarrow>
           \<not> IsPressed (all_keys (state ?h)) a \<and> \<not> IsPressed (all_keys (state ?h)) b"
    using inv by (intro Axis_zero_released [OF _ small ne]) (simp add: handler_inv_def)
qed

lemma Pressed_State_ctor [simp]:
  "PressedEventIndex (keys State_ctor) k = 0" "PressedEventIndex (all_keys State_ctor) k = 0"
  by (simp_all add: PressedEventIndex_def State_ctor_def)

text \<open>
  \<open>Axis\<close> keeps the low 32 bits of an index and reads them as signed. A key pressed at
  index \<open>2^32\<close> compares like a released one, and a key pressed at index \<open>2^31\<close> compares as
  older than a released one. A key paired with itself gives 0 also when it is pressed.
\<close>

lemma Axis_cuts_index:
  "Axis \<lparr>pressed_event_index = [2 ^ 32, 0]\<rparr> 0 1 = 0
   \<and> IsPressed \<lparr>pressed_event_index = [2 ^ 32, 0]\<rparr> 0
   \<and> Axis \<lparr>pressed_event_index = [2 ^ 31, 0]\<rparr> 0 1 = 1"
  by (simp add: Axis_def IsPressed_def PressedEventIndex_def key_as_size_t_nonneg)

lemma Axis_same_key: "Axis ks k k = 0"
  by (simp add: Axis_def)

lemma run_ops_append: "run_ops ch (xs @ ys) h = run_ops ch ys (run_ops ch xs h)"
  by (induction xs arbitrary: h) simp_all

lemma run_ops_idle:
  "event_index (state (run_ops ch (replicate n (Raw (CharCb w c))) h)) = event_index (state h) + of_nat n"
  "keys (state (run_ops ch (replicate n (Raw (CharCb w c))) h)) = keys (state h)"
proof -
  show "event_index (state (run_ops ch (replicate n (Raw (CharCb w c))) h)) = event_index (state h) + of_nat n"
    by (simp add: run_ops_event_index)
  show "keys (state (run_ops ch (replicate n (Raw (CharCb w c))) h)) = keys (state h)"
  proof (induction n arbitrary: h)
    case 0
    then show ?case by simp
  next
    case (Suc n)
    then show ?case using deliver_not_key_tables [of "CharCb w c" ch h] by simp
  qed
qed

text \<open>
  Claim C4. The claim fails on the code by a defect of \<open>Axis\<close>: the press indices are 64-bit
  counters and \<open>Axis\<close> copies them into \<open>int\<close>. From a new handler, \<open>2^32 - 1\<close> character
  callbacks and then a press of key 65 store the index \<open>2^32\<close> for key 65: key 65 is
  pressed, key 66 is released, and \<open>Axis 65 66\<close> is 0, where the claim and the comment on
  \<open>Axis\<close> in the header give 0 for two released keys only.
\<close>

theorem C4_axis_reads_index_as_int:
  "PressedEventIndex (keys (state (run_ops NoOpHandler idle_then_press (Handler_ctor ())))) 65 = 2 ^ 32
   \<and> IsPressed (keys (state (run_ops NoOpHandler idle_then_press (Handler_ctor ())))) 65
   \<and> \<not> IsPressed (keys (state (run_ops NoOpHandler idle_then_press (Handler_ctor ())))) 66
   \<and> Axis (keys (state (run_ops NoOpHandler idle_then_press (Handler_ctor ())))) 65 66 = 0"
proof -
  define n :: nat where "n = 2 ^ 32 - 1"
  let ?h1 = "run_ops NoOpHandler (replicate n (Raw (CharCb 0 97))) (Handler_ctor ())"
  let ?h = "deliver NoOpHandler (KeyCb 0 65 0 GLFW_PRESS 0) ?h1"
  have run: "run_ops NoOpHandler idle_then_press (Handler_ctor ()) = ?h"
    unfolding idle_then_press_def n_def [symmetric] by (simp add: run_ops_append)
  have ei: "event_index (state ?h1) = of_nat n" by (simp add: run_ops_idle)
  have ks: "keys (state ?h1) = keys State_ctor" by (simp add: run_ops_idle)
  have "of_nat n + 1 = (2 ^ 32 :: uint64)" by (simp add: n_def)
  then have p65: "PressedEventIndex (keys (state ?h)) 65 = 2 ^ 32"
    using tracked_State_ctor by (simp add: deliver_KeyCb_keys ks ei Pressed_Set_same)
  have p66: "PressedEventIndex (keys (state ?h)) 66 = 0"
    by (simp add: deliver_KeyCb_keys ks Pressed_Set_other)
  have ax: "Axis (keys (state ?h)) 65 66 = 0"
    unfolding Axis_def p65 p66 by simp
  show ?thesis unfolding run using p65 p66 ax by (simp add: IsPressed_def)
qed

section \<open>Properties of the UI translator\<close>

lemma round_float_of_int: "\<bar>n\<bar> < 2 ^ 24 \<Longrightarrow> round_float (of_int n) = Finite (of_int n)"
  unfolding round_float_def by (rule ieee_round_of_int) simp_all

subsection \<open>The two copies\<close>

lemma memcpy_at_ok:
  "pos + length src \<le> length dst \<Longrightarrow>
   memcpy_at dst pos src = Inr (splice dst pos src)"
  by (simp add: memcpy_at_def)

lemma length_splice [simp]:
  "pos + length src \<le> length dst \<Longrightarrow> length (splice dst pos src) = length dst"
  by (simp add: splice_def)

lemma take_splice:
  "pos + length src \<le> length dst \<Longrightarrow>
   take (pos + length src) (splice dst pos src) = take pos dst @ src"
  by (simp add: splice_def)

lemma drop_splice:
  "pos + length src \<le> length dst \<Longrightarrow> pos + length src \<le> n \<Longrightarrow>
   drop n (splice dst pos src) = drop n dst"
  by (simp add: splice_def)

lemma splice_splice:
  assumes "pos + length a + length b \<le> length dst"
  shows "splice (splice dst pos a) (pos + length a) b = splice dst pos (a @ b)"
proof -
  have l: "pos + length a \<le> length dst" using assms by simp
  have "take (pos + length a) (splice dst pos a) = take pos dst @ a"
    using l by (rule take_splice)
  moreover have "drop (pos + length a + length b) (splice dst pos a) = drop (pos + length a + length b) dst"
    using l by (intro drop_splice) simp_all
  ultimately show ?thesis by (simp add: splice_def [of "splice dst pos a"] splice_def [of dst pos "a @ b"] add.assoc)
qed

lemma splice_Nil [simp]: "splice dst pos [] = dst"
  by (simp add: splice_def)

lemma rewrite_indices_ok:
  "pos + length ds \<le> length dst \<Longrightarrow>
   rewrite_indices ds pos i_vert dst =
     Inr (splice dst pos (map (\<lambda>d. d + of_nat i_vert) ds))"
proof (induction ds arbitrary: pos dst)
  case Nil
  then show ?case by simp
next
  case (Cons d ds)
  from Cons.prems have lt: "pos < length dst" by simp
  have len: "Suc pos + length ds \<le> length (dst[pos := d + of_nat i_vert])"
    using Cons.prems by simp
  have "take (Suc pos) (dst[pos := d + of_nat i_vert]) = take pos dst @ [d + of_nat i_vert]"
    using lt by (simp add: take_Suc_conv_app_nth)
  moreover have "drop (Suc pos + length ds) (dst[pos := d + of_nat i_vert]) = drop (Suc pos + length ds) dst"
    by simp
  ultimately show ?case using lt Cons.IH [OF len] by (simp add: splice_def)
qed

lemma rewrite_indices_zero:
  "pos + length ds \<le> length dst \<Longrightarrow> rewrite_indices ds pos 0 dst = memcpy_at dst pos ds"
  by (simp add: rewrite_indices_ok memcpy_at_ok)

subsection \<open>The inner loop\<close>

lemma length_geometry_cmds_le: "length (geometry_cmds cmds) \<le> length cmds"
  by (simp add: geometry_cmds_def)

lemma cmd_loop_ok:
  "cs_i_renderable cs + length (geometry_cmds cmds) \<le> length (cs_pool cs) \<Longrightarrow>
   \<exists>cs'. cmd_loop cmds height_px atlas vb ib i_ind cs = Inr cs' \<and>
         length (cs_pool cs') = length (cs_pool cs) \<and>
         length (cs_entries cs') = length (cs_entries cs) \<and>
         cs_i_renderable cs' = cs_i_renderable cs + length (geometry_cmds cmds)"
proof (induction cmds arbitrary: cs)
  case Nil
  then show ?case by (simp add: geometry_cmds_def)
next
  case (Cons cmd cmds)
  show ?case
  proof (cases "UserCallback cmd")
    case (Some cb)
    then have g: "geometry_cmds (cmd # cmds) = geometry_cmds cmds" by (simp add: geometry_cmds_def)
    from Cons.prems g Cons.IH [of "cs\<lparr>cs_calls := cs_calls cs @ [cb]\<rparr>"] Some
    show ?thesis by simp
  next
    case None
    then have g: "length (geometry_cmds (cmd # cmds)) = Suc (length (geometry_cmds cmds))"
      by (simp add: geometry_cmds_def)
    with Cons.prems have lt: "cs_i_renderable cs < length (cs_pool cs)" by simp
    let ?i = "cs_i_renderable cs"
    let ?mat = "(SetScissor (ClipRect cmd) height_px (cs_pool cs ! ?i))
                  \<lparr>mi_albedo := Some (if TexID cmd \<noteq> 0 then TexID cmd else atlas)\<rparr>"
    let ?cs1 = "cs\<lparr>cs_pool := (cs_pool cs)[?i := ?mat],
                    cs_entries := (cs_entries cs)[?i := Some
                       \<lparr>prim_vertices = vb, prim_indices = ib,
                        prim_offset = IdxOffset cmd + of_nat i_ind,
                        prim_count = ElemCount cmd,
                        prim_blendOrder = of_nat ?i,
                        prim_material = mi_handle ?mat\<rparr>],
                    cs_i_renderable := Suc ?i\<rparr>"
    have step: "cmd_loop (cmd # cmds) height_px atlas vb ib i_ind cs =
                cmd_loop cmds height_px atlas vb ib i_ind ?cs1"
      using None lt by (simp add: Let_def)
    have "cs_i_renderable ?cs1 + length (geometry_cmds cmds) \<le> length (cs_pool ?cs1)"
      using Cons.prems g by simp
    from Cons.IH [OF this] show ?thesis unfolding step using g by simp
  qed
qed


subsection \<open>The outer loop\<close>

lemma list_loop_ok:
  "ls_i_vert ls + total_vertices dls \<le> length (ls_vertex_data ls) \<Longrightarrow>
   ls_i_ind ls + total_indices dls \<le> length (ls_index_data ls) \<Longrightarrow>
   cs_i_renderable (ls_cmd ls) + sum_list (map (\<lambda>l. length (CmdBuffer l)) dls)
     \<le> length (cs_pool (ls_cmd ls)) \<Longrightarrow>
   (i = 0 \<longrightarrow> ls_i_vert ls = 0) \<Longrightarrow>
   \<exists>ls'. list_loop dls i height_px atlas vb ib ls = Inr ls' \<and>
     ls_i_vert ls' = ls_i_vert ls + total_vertices dls \<and>
     ls_i_ind ls' = ls_i_ind ls + total_indices dls \<and>
     ls_vertex_data ls' = splice (ls_vertex_data ls) (ls_i_vert ls) (concat (map VtxBuffer dls)) \<and>
     ls_index_data ls' = splice (ls_index_data ls) (ls_i_ind ls) (stored_indices (ls_i_vert ls) dls) \<and>
     length (cs_pool (ls_cmd ls')) = length (cs_pool (ls_cmd ls)) \<and>
     length (cs_entries (ls_cmd ls')) = length (cs_entries (ls_cmd ls))"
proof (induction dls arbitrary: ls i)
  case Nil
  then show ?case by (simp add: total_vertices_def total_indices_def)
next
  case (Cons l rest)
  let ?V = "VtxBuffer l" and ?I = "IdxBuffer l"
  let ?S = "map (\<lambda>x. x + of_nat (ls_i_vert ls)) ?I"
  have tv: "total_vertices (l # rest) = length ?V + total_vertices rest"
    and ti: "total_indices (l # rest) = length ?I + total_indices rest"
    by (simp_all add: total_vertices_def total_indices_def)
  have vb_ok: "ls_i_vert ls + length ?V \<le> length (ls_vertex_data ls)"
    using Cons.prems(1) tv by simp
  have ib_ok: "ls_i_ind ls + length ?I \<le> length (ls_index_data ls)"
    using Cons.prems(2) ti by simp
  have v: "memcpy_at (ls_vertex_data ls) (ls_i_vert ls) ?V = Inr (splice (ls_vertex_data ls) (ls_i_vert ls) ?V)"
    using vb_ok by (rule memcpy_at_ok)
  have ix: "(if i = 0 then memcpy_at (ls_index_data ls) (ls_i_ind ls) ?I
             else rewrite_indices ?I (ls_i_ind ls) (ls_i_vert ls) (ls_index_data ls))
            = Inr (splice (ls_index_data ls) (ls_i_ind ls) ?S)"
  proof (cases "i = 0")
    case True
    with Cons.prems(4) have "ls_i_vert ls = 0" by simp
    then show ?thesis using True ib_ok by (simp add: memcpy_at_ok)
  next
    case False
    then show ?thesis using ib_ok by (simp add: rewrite_indices_ok)
  qed
  have "cs_i_renderable (ls_cmd ls) + length (geometry_cmds (CmdBuffer l)) \<le> length (cs_pool (ls_cmd ls))"
    using Cons.prems(3) length_geometry_cmds_le [of "CmdBuffer l"] by simp
  from cmd_loop_ok [OF this, of height_px atlas vb ib "ls_i_ind ls"]
  obtain cs' where cs': "cmd_loop (CmdBuffer l) height_px atlas vb ib (ls_i_ind ls) (ls_cmd ls) = Inr cs'"
    "length (cs_pool cs') = length (cs_pool (ls_cmd ls))"
    "length (cs_entries cs') = length (cs_entries (ls_cmd ls))"
    "cs_i_renderable cs' = cs_i_renderable (ls_cmd ls) + length (geometry_cmds (CmdBuffer l))"
    by blast
  let ?ls1 = "\<lparr>ls_i_vert = ls_i_vert ls + length ?V,
               ls_i_ind = ls_i_ind ls + length ?I,
               ls_vertex_data = splice (ls_vertex_data ls) (ls_i_vert ls) ?V,
               ls_index_data = splice (ls_index_data ls) (ls_i_ind ls) ?S,
               ls_cmd = cs'\<rparr>"
  have step: "list_loop (l # rest) i height_px atlas vb ib ls =
              list_loop rest (Suc i) height_px atlas vb ib ?ls1"
    using v ix cs'(1) by (simp add: Let_def)
  have p1: "ls_i_vert ?ls1 + total_vertices rest \<le> length (ls_vertex_data ?ls1)"
    using Cons.prems(1) tv vb_ok by simp
  have p2: "ls_i_ind ?ls1 + total_indices rest \<le> length (ls_index_data ?ls1)"
    using Cons.prems(2) ti ib_ok by simp
  have p3: "cs_i_renderable (ls_cmd ?ls1) + sum_list (map (\<lambda>l. length (CmdBuffer l)) rest)
              \<le> length (cs_pool (ls_cmd ?ls1))"
    using Cons.prems(3) cs'(2,4) length_geometry_cmds_le [of "CmdBuffer l"] by simp
  have p4: "Suc i = 0 \<longrightarrow> ls_i_vert ?ls1 = 0" by simp
  from Cons.IH [OF p1 p2 p3 p4]
  obtain ls' where ls': "list_loop rest (Suc i) height_px atlas vb ib ?ls1 = Inr ls'"
     "ls_i_vert ls' = ls_i_vert ?ls1 + total_vertices rest"
     "ls_i_ind ls' = ls_i_ind ?ls1 + total_indices rest"
     "ls_vertex_data ls' = splice (ls_vertex_data ?ls1) (ls_i_vert ?ls1) (concat (map VtxBuffer rest))"
     "ls_index_data ls' = splice (ls_index_data ?ls1) (ls_i_ind ?ls1) (stored_indices (ls_i_vert ?ls1) rest)"
     "length (cs_pool (ls_cmd ls')) = length (cs_pool (ls_cmd ?ls1))"
     "length (cs_entries (ls_cmd ls')) = length (cs_entries (ls_cmd ?ls1))"
    by blast
  have lc: "length (concat (map VtxBuffer rest)) = total_vertices rest" for rest
    by (induction rest) (simp_all add: total_vertices_def)
  have lsi: "length (stored_indices off rest) = total_indices rest" for off rest
    by (induction rest arbitrary: off) (simp_all add: total_indices_def)
  have vd: "ls_vertex_data ls' = splice (ls_vertex_data ls) (ls_i_vert ls) (concat (map VtxBuffer (l # rest)))"
    using ls'(4) splice_splice [of "ls_i_vert ls" ?V "concat (map VtxBuffer rest)" "ls_vertex_data ls"]
      Cons.prems(1) tv lc by simp
  have "length ?S = length ?I" by simp
  then have idd: "ls_index_data ls' = splice (ls_index_data ls) (ls_i_ind ls) (stored_indices (ls_i_vert ls) (l # rest))"
    using ls'(5) splice_splice [of "ls_i_ind ls" ?S "stored_indices (ls_i_vert ls + length ?V) rest" "ls_index_data ls"]
      Cons.prems(2) ti lsi by simp
  show ?case
    unfolding step using ls'(1,2,3,6,7) vd idd cs'(2,3) tv ti by simp
qed

subsection \<open>The engine\<close>

lemma create_instances_props:
  "length (fst (create_instances n eng)) = n \<and>
   destroyed (snd (create_instances n eng)) = destroyed eng \<and>
   fence_waits (snd (create_instances n eng)) = fence_waits eng \<and>
   next_handle (snd (create_instances n eng)) = next_handle eng + n"
proof (induction n arbitrary: eng)
  case 0
  then show ?case by simp
next
  case (Suc n)
  from Suc [of "eng\<lparr>next_handle := Suc (next_handle eng)\<rparr>"]
  show ?case by (simp add: engine_fresh_def Let_def split_beta)
qed

lemma create_instances_zero [simp]: "create_instances 0 eng = ([], eng)"
  by simp

subsection \<open>The buffer swap\<close>

lemma length_resize [simp]: "length (resize d xs n) = n"
  by (simp add: resize_def)

lemma rebuild_vertex_fields:
  "vertex_buffer (snd (rebuild_vertex n eng ui)) =
     Some \<lparr>vb_handle = next_handle eng, vb_vertexCount = n, vb_data = []\<rparr>"
  "vertex_data (snd (rebuild_vertex n eng ui)) = resize zero_vert (vertex_data ui) n"
  "index_buffer (snd (rebuild_vertex n eng ui)) = index_buffer ui"
  "index_data (snd (rebuild_vertex n eng ui)) = index_data ui"
  "material (snd (rebuild_vertex n eng ui)) = material ui"
  "material_instances (snd (rebuild_vertex n eng ui)) = material_instances ui"
  "font_atlas (snd (rebuild_vertex n eng ui)) = font_atlas ui"
  "callbacks_invoked (snd (rebuild_vertex n eng ui)) = callbacks_invoked ui"
  "next_handle (fst (rebuild_vertex n eng ui)) = Suc (next_handle eng)"
  "destroyed (fst (rebuild_vertex n eng ui)) =
     destroyed eng @ (case vertex_buffer ui of None \<Rightarrow> [] | Some b \<Rightarrow> [vb_handle b])"
  by (simp_all add: rebuild_vertex_def engine_fresh_def engine_destroy_def Let_def
      split: prod.splits option.splits)

lemma rebuild_index_fields:
  "index_buffer (snd (rebuild_index n eng ui)) =
     Some \<lparr>ib_handle = next_handle eng, ib_indexCount = n, ib_data = []\<rparr>"
  "index_data (snd (rebuild_index n eng ui)) = resize 0 (index_data ui) n"
  "vertex_buffer (snd (rebuild_index n eng ui)) = vertex_buffer ui"
  "vertex_data (snd (rebuild_index n eng ui)) = vertex_data ui"
  "material (snd (rebuild_index n eng ui)) = material ui"
  "material_instances (snd (rebuild_index n eng ui)) = material_instances ui"
  "font_atlas (snd (rebuild_index n eng ui)) = font_atlas ui"
  "callbacks_invoked (snd (rebuild_index n eng ui)) = callbacks_invoked ui"
  "next_handle (fst (rebuild_index n eng ui)) = Suc (next_handle eng)"
  "destroyed (fst (rebuild_index n eng ui)) =
     destroyed eng @ (case index_buffer ui of None \<Rightarrow> [] | Some b \<Rightarrow> [ib_handle b])"
  by (simp_all add: rebuild_index_def engine_fresh_def engine_destroy_def Let_def
      split: prod.splits option.splits)

lemma rebuild_buffers_none [simp]: "rebuild_buffers False False commands eng ui = (eng, ui)"
  by (simp add: rebuild_buffers_def)

lemma rebuild_buffers_vertex:
  "vertex_buffer (snd (rebuild_buffers rv ri commands eng ui)) =
     (if rv then Some \<lparr>vb_handle = next_handle eng, vb_vertexCount = TotalVtxCount commands, vb_data = []\<rparr>
      else vertex_buffer ui)"
  "vertex_data (snd (rebuild_buffers rv ri commands eng ui)) =
     (if rv then resize zero_vert (vertex_data ui) (TotalVtxCount commands) else vertex_data ui)"
  by (simp_all add: rebuild_buffers_def wait_fence_def Let_def rebuild_vertex_fields rebuild_index_fields
      split_beta)

lemma rebuild_buffers_index:
  "index_data (snd (rebuild_buffers rv ri commands eng ui)) =
     (if ri then resize 0 (index_data ui) (TotalIdxCount commands) else index_data ui)"
  "map_option ib_indexCount (index_buffer (snd (rebuild_buffers rv ri commands eng ui))) =
     (if ri then Some (TotalIdxCount commands) else map_option ib_indexCount (index_buffer ui))"
  "\<not> ri \<Longrightarrow> index_buffer (snd (rebuild_buffers rv ri commands eng ui)) = index_buffer ui"
  by (simp_all add: rebuild_buffers_def wait_fence_def Let_def rebuild_vertex_fields rebuild_index_fields
      split_beta)

lemma rebuild_buffers_rest:
  "material (snd (rebuild_buffers rv ri commands eng ui)) = material ui"
  "material_instances (snd (rebuild_buffers rv ri commands eng ui)) = material_instances ui"
  "font_atlas (snd (rebuild_buffers rv ri commands eng ui)) = font_atlas ui"
  "callbacks_invoked (snd (rebuild_buffers rv ri commands eng ui)) = callbacks_invoked ui"
  by (simp_all add: rebuild_buffers_def wait_fence_def Let_def rebuild_vertex_fields rebuild_index_fields
      split_beta)

subsection \<open>The renderables\<close>

lemma length_concat_VtxBuffer: "length (concat (map VtxBuffer dls)) = total_vertices dls"
  by (induction dls) (simp_all add: total_vertices_def)

lemma length_stored_indices: "length (stored_indices off dls) = total_indices dls"
  by (induction dls arbitrary: off) (simp_all add: total_indices_def)

lemma build_renderables_keeps:
  assumes "build_renderables commands height_px eng ui = Inr ui'"
  shows "map_option vb_handle (vertex_buffer ui') = map_option vb_handle (vertex_buffer ui)"
    and "map_option vb_vertexCount (vertex_buffer ui') = map_option vb_vertexCount (vertex_buffer ui)"
    and "map_option ib_handle (index_buffer ui') = map_option ib_handle (index_buffer ui)"
    and "map_option ib_indexCount (index_buffer ui') = map_option ib_indexCount (index_buffer ui)"
    and "material ui' = material ui"
    and "\<exists>eng'. engine ui' = Some eng' \<and> destroyed eng' = destroyed eng \<and>
           fence_waits eng' = fence_waits eng"
  using assms create_instances_props
    [of "sum_list (map (\<lambda>l. length (CmdBuffer l)) (CmdLists commands)) - length (material_instances ui)" eng]
  by (auto simp: build_renderables_def Let_def split_beta option.map_comp comp_def
      split: if_splits sum.splits option.splits)

lemma build_renderables_ok:
  assumes v: "total_vertices (CmdLists commands) \<le> length (vertex_data ui)"
    and i: "total_indices (CmdLists commands) \<le> length (index_data ui)"
    and m: "material ui \<noteq> 0 \<or>
            sum_list (map (\<lambda>l. length (CmdBuffer l)) (CmdLists commands)) \<le> length (material_instances ui)"
  shows "\<exists>ui'. build_renderables commands height_px eng ui = Inr ui' \<and>
     vertex_data ui' = splice (vertex_data ui) 0 (concat (map VtxBuffer (CmdLists commands))) \<and>
     index_data ui' = splice (index_data ui) 0 (stored_indices 0 (CmdLists commands)) \<and>
     vertex_buffer ui' =
       (if total_vertices (CmdLists commands) \<noteq> 0
        then map_option (\<lambda>b. b\<lparr>vb_data := concat (map VtxBuffer (CmdLists commands))\<rparr>) (vertex_buffer ui)
        else vertex_buffer ui) \<and>
     index_buffer ui' =
       (if total_indices (CmdLists commands) \<noteq> 0
        then map_option (\<lambda>b. b\<lparr>ib_data := stored_indices 0 (CmdLists commands)\<rparr>) (index_buffer ui)
        else index_buffer ui) \<and>
     (\<exists>es. renderable ui' = Some es \<and>
           length es = sum_list (map (\<lambda>l. length (CmdBuffer l)) (CmdLists commands))) \<and>
     length (material_instances ui') =
       max (length (material_instances ui))
           (sum_list (map (\<lambda>l. length (CmdBuffer l)) (CmdLists commands)))"
proof -
  let ?L = "CmdLists commands"
  let ?n = "sum_list (map (\<lambda>l. length (CmdBuffer l)) ?L)"
  let ?new = "fst (create_instances (?n - length (material_instances ui)) eng)"
  let ?eng' = "snd (create_instances (?n - length (material_instances ui)) eng)"
  let ?pool = "material_instances ui @ ?new"
  let ?ls0 = "\<lparr>ls_i_vert = 0, ls_i_ind = 0,
               ls_vertex_data = vertex_data ui, ls_index_data = index_data ui,
               ls_cmd = \<lparr>cs_pool = ?pool, cs_entries = replicate ?n None,
                         cs_i_renderable = 0, cs_calls = callbacks_invoked ui\<rparr>\<rparr>"
  have lp: "length ?pool = max (length (material_instances ui)) ?n"
    using create_instances_props [of "?n - length (material_instances ui)" eng] by simp
  have nofault: "\<not> (length (material_instances ui) < ?n \<and> material ui = 0)" using m by auto
  have a1: "ls_i_vert ?ls0 + total_vertices ?L \<le> length (ls_vertex_data ?ls0)" using v by simp
  have a2: "ls_i_ind ?ls0 + total_indices ?L \<le> length (ls_index_data ?ls0)" using i by simp
  have a3: "cs_i_renderable (ls_cmd ?ls0) + ?n \<le> length (cs_pool (ls_cmd ?ls0))" using lp by simp
  have a4: "(0::nat) = 0 \<longrightarrow> ls_i_vert ?ls0 = 0" by simp
  from list_loop_ok [OF a1 a2 a3 a4, of height_px "font_atlas ui"
      "map_option vb_handle (vertex_buffer ui)" "map_option ib_handle (index_buffer ui)"]
  obtain ls' where ls': "list_loop ?L 0 height_px (font_atlas ui)
        (map_option vb_handle (vertex_buffer ui)) (map_option ib_handle (index_buffer ui)) ?ls0 = Inr ls'"
     "ls_i_vert ls' = total_vertices ?L" "ls_i_ind ls' = total_indices ?L"
     "ls_vertex_data ls' = splice (vertex_data ui) 0 (concat (map VtxBuffer ?L))"
     "ls_index_data ls' = splice (index_data ui) 0 (stored_indices 0 ?L)"
     "length (cs_pool (ls_cmd ls')) = length ?pool"
     "length (cs_entries (ls_cmd ls')) = ?n"
    by auto
  have tk: "take (total_vertices ?L) (splice (vertex_data ui) 0 (concat (map VtxBuffer ?L)))
            = concat (map VtxBuffer ?L)"
    using take_splice [of 0 "concat (map VtxBuffer ?L)" "vertex_data ui"] v
    by (simp add: length_concat_VtxBuffer)
  have tki: "take (total_indices ?L) (splice (index_data ui) 0 (stored_indices 0 ?L))
            = stored_indices 0 ?L"
    using take_splice [of 0 "stored_indices 0 ?L" "index_data ui"] i
    by (simp add: length_stored_indices)
  have eq: "build_renderables commands height_px eng ui =
      Inr (ui\<lparr>engine := Some ?eng',
              material_instances := cs_pool (ls_cmd ls'),
              vertex_data := ls_vertex_data ls',
              index_data := ls_index_data ls',
              callbacks_invoked := cs_calls (ls_cmd ls'),
              renderable := Some (cs_entries (ls_cmd ls')),
              vertex_buffer :=
                (if ls_i_vert ls' \<noteq> 0
                 then map_option (\<lambda>b. b\<lparr>vb_data := take (ls_i_vert ls') (ls_vertex_data ls')\<rparr>)
                        (vertex_buffer ui)
                 else vertex_buffer ui),
              index_buffer :=
                (if ls_i_ind ls' \<noteq> 0
                 then map_option (\<lambda>b. b\<lparr>ib_data := take (ls_i_ind ls') (ls_index_data ls')\<rparr>)
                        (index_buffer ui)
                 else index_buffer ui)\<rparr>)"
    unfolding build_renderables_def Let_def using nofault ls'(1) by (simp add: split_beta)
  show ?thesis
    unfolding eq using ls'(2-7) tk tki lp by simp
qed

subsection \<open>UpdateView, case by case\<close>

lemma UpdateView_no_engine: "engine ui = None \<Longrightarrow> UpdateView commands io ui = Inr ui"
  by (simp add: UpdateView_def)

lemma UpdateView_display_zero: "display_zero io \<Longrightarrow> UpdateView commands io ui = Inr ui"
  by (simp add: UpdateView_def display_zero_def split: option.splits)

lemma UpdateView_no_lists:
  "engine ui \<noteq> None \<Longrightarrow> \<not> display_zero io \<Longrightarrow> CmdLists commands = [] \<Longrightarrow>
   UpdateView commands io ui = Inr (frame_start io ui)"
  by (auto simp: UpdateView_def display_zero_def frame_start_def Let_def)

lemma UpdateView_renders:
  assumes "renders commands io ui"
  shows "UpdateView commands io ui =
     build_renderables commands
       (float_to_int (fmul (v2_y (DisplaySize io)) (v2_y (DisplayFramebufferScale io))))
       (fst (rebuild_buffers (rv_flag commands ui) (ri_flag commands ui) commands
               (the (engine ui)) (warned io (frame_start io ui))))
       (snd (rebuild_buffers (rv_flag commands ui) (ri_flag commands ui) commands
               (the (engine ui)) (warned io (frame_start io ui))))"
proof -
  from assms obtain eng where e: "engine ui = Some eng" by (auto simp: renders_def)
  have rv: "(case vertex_buffer (frame_start io ui) of None \<Rightarrow> True
             | Some b \<Rightarrow> vb_vertexCount b < TotalVtxCount commands) = rv_flag commands ui"
    by (simp add: rv_flag_def vertex_capacity_def frame_start_def split: option.splits)
  have ri: "(case index_buffer (frame_start io ui) of None \<Rightarrow> True
             | Some b \<Rightarrow> ib_indexCount b < TotalIdxCount commands) = ri_flag commands ui"
    by (simp add: ri_flag_def index_capacity_def frame_start_def split: option.splits)
  from assms have nz: "\<not> (v2_x (DisplaySize io) = Finite 0 \<and> v2_y (DisplaySize io) = Finite 0)"
    and ne: "CmdLists commands \<noteq> []"
    by (simp_all add: renders_def display_zero_def)
  have fs: "ui\<lparr>viewport := Some
            (float_to_int (fmul (v2_x (DisplaySize io)) (v2_x (DisplayFramebufferScale io))),
             float_to_int (fmul (v2_y (DisplaySize io)) (v2_y (DisplayFramebufferScale io)))),
        projection := Some (v2_x (DisplaySize io), v2_y (DisplaySize io)),
        renderable := None\<rparr> = frame_start io ui"
    by (simp add: frame_start_def)
  show ?thesis
    unfolding UpdateView_def Let_def e option.case if_not_P [OF nz] if_not_P [OF ne] fs rv ri
    by (simp add: split_beta warned_def)
qed

lemma staged_fields [simp]:
  "vertex_buffer (warned io (frame_start io ui)) = vertex_buffer ui"
  "index_buffer (warned io (frame_start io ui)) = index_buffer ui"
  "vertex_data (warned io (frame_start io ui)) = vertex_data ui"
  "index_data (warned io (frame_start io ui)) = index_data ui"
  "material (warned io (frame_start io ui)) = material ui"
  "material_instances (warned io (frame_start io ui)) = material_instances ui"
  by (simp_all add: warned_def frame_start_def)

lemma frame_start_fields [simp]:
  "vertex_buffer (frame_start io ui) = vertex_buffer ui"
  "index_buffer (frame_start io ui) = index_buffer ui"
  "vertex_data (frame_start io ui) = vertex_data ui"
  "index_data (frame_start io ui) = index_data ui"
  "material (frame_start io ui) = material ui"
  "material_instances (frame_start io ui) = material_instances ui"
  "engine (frame_start io ui) = engine ui"
  "renderable (frame_start io ui) = None"
  "callbacks_invoked (frame_start io ui) = callbacks_invoked ui"
  "warnings (frame_start io ui) = warnings ui"
  "font_atlas (frame_start io ui) = font_atlas ui"
  by (simp_all add: frame_start_def)

lemma swapped_vertex:
  fixes commands io ui
  defines "ui3 \<equiv> snd (rebuild_buffers (rv_flag commands ui) (ri_flag commands ui) commands
               (the (engine ui)) (warned io (frame_start io ui)))"
  shows "vertex_capacity ui3 = max (vertex_capacity ui) (TotalVtxCount commands)"
    and "ui_inv ui \<Longrightarrow> length (vertex_data ui3) = vertex_capacity ui3"
    and "\<not> rv_flag commands ui \<Longrightarrow> vertex_buffer ui3 = vertex_buffer ui"
    and "vertex_buffer ui3 \<noteq> None"
  unfolding ui3_def
  by (auto simp: rebuild_buffers_vertex rv_flag_def vertex_capacity_def ui_inv_def
      split: option.splits)

lemma swapped_index:
  fixes commands io ui
  defines "ui3 \<equiv> snd (rebuild_buffers (rv_flag commands ui) (ri_flag commands ui) commands
               (the (engine ui)) (warned io (frame_start io ui)))"
  shows "index_capacity ui3 = max (index_capacity ui) (TotalIdxCount commands)"
    and "ui_inv ui \<Longrightarrow> length (index_data ui3) = index_capacity ui3"
    and "\<not> ri_flag commands ui \<Longrightarrow> index_buffer ui3 = index_buffer ui"
    and "index_buffer ui3 \<noteq> None"
proof -
  let ?r = "rebuild_buffers (rv_flag commands ui) (ri_flag commands ui) commands
               (the (engine ui)) (warned io (frame_start io ui))"
  have c: "map_option ib_indexCount (index_buffer (snd ?r)) =
        (if ri_flag commands ui then Some (TotalIdxCount commands)
         else map_option ib_indexCount (index_buffer ui))"
    by (simp add: rebuild_buffers_index)
  have cap: "index_capacity u = (case map_option ib_indexCount (index_buffer u) of None \<Rightarrow> 0 | Some n \<Rightarrow> n)" for u
    by (simp add: index_capacity_def split: option.splits)
  show "index_capacity ui3 = max (index_capacity ui) (TotalIdxCount commands)"
    unfolding ui3_def cap [of "snd ?r"] c
    by (auto simp: ri_flag_def index_capacity_def split: option.splits)
  then show "ui_inv ui \<Longrightarrow> length (index_data ui3) = index_capacity ui3"
    unfolding ui3_def
    by (auto simp: rebuild_buffers_index ri_flag_def ui_inv_def index_capacity_def split: option.splits)
  show "\<not> ri_flag commands ui \<Longrightarrow> index_buffer ui3 = index_buffer ui"
    unfolding ui3_def by (simp add: rebuild_buffers_index)
  show "index_buffer ui3 \<noteq> None"
    unfolding ui3_def using c by (auto simp: ri_flag_def split: if_splits)
qed

lemma capacity_via_count:
  "vertex_capacity u = (case map_option vb_vertexCount (vertex_buffer u) of None \<Rightarrow> 0 | Some n \<Rightarrow> n)"
  "index_capacity u = (case map_option ib_indexCount (index_buffer u) of None \<Rightarrow> 0 | Some n \<Rightarrow> n)"
  by (simp_all add: vertex_capacity_def index_capacity_def split: option.splits)

lemma UpdateView_capacity:
  assumes "UpdateView commands io ui = Inr ui'"
  shows "vertex_capacity ui' =
           (if renders commands io ui then max (vertex_capacity ui) (TotalVtxCount commands)
            else vertex_capacity ui)"
    and "index_capacity ui' =
           (if renders commands io ui then max (index_capacity ui) (TotalIdxCount commands)
            else index_capacity ui)"
proof -
  let ?r = "rebuild_buffers (rv_flag commands ui) (ri_flag commands ui) commands
               (the (engine ui)) (warned io (frame_start io ui))"
  have skip: "vertex_capacity ui' = vertex_capacity ui \<and> index_capacity ui' = index_capacity ui"
    if "\<not> renders commands io ui"
  proof -
    from that consider "engine ui = None" | "display_zero io"
      | "engine ui \<noteq> None" "\<not> display_zero io" "CmdLists commands = []"
      by (auto simp: renders_def)
    then show ?thesis
    proof cases
      case 1 with assms show ?thesis by (simp add: UpdateView_no_engine)
    next
      case 2 with assms show ?thesis by (simp add: UpdateView_display_zero)
    next
      case 3 with assms show ?thesis
        by (auto simp: UpdateView_no_lists vertex_capacity_def index_capacity_def)
    qed
  qed
  have go: "vertex_capacity ui' = max (vertex_capacity ui) (TotalVtxCount commands) \<and>
            index_capacity ui' = max (index_capacity ui) (TotalIdxCount commands)"
    if r: "renders commands io ui"
  proof -
    from assms have b: "build_renderables commands
       (float_to_int (fmul (v2_y (DisplaySize io)) (v2_y (DisplayFramebufferScale io))))
       (fst ?r) (snd ?r) = Inr ui'"
      by (simp add: UpdateView_renders [OF r])
    from build_renderables_keeps(2) [OF b] have "vertex_capacity ui' = vertex_capacity (snd ?r)"
      by (simp add: capacity_via_count)
    moreover from build_renderables_keeps(4) [OF b] have "index_capacity ui' = index_capacity (snd ?r)"
      by (simp add: capacity_via_count)
    ultimately show ?thesis by (simp add: swapped_vertex(1) swapped_index(1))
  qed
  show "vertex_capacity ui' =
           (if renders commands io ui then max (vertex_capacity ui) (TotalVtxCount commands)
            else vertex_capacity ui)"
    using skip go by simp
  show "index_capacity ui' =
           (if renders commands io ui then max (index_capacity ui) (TotalIdxCount commands)
            else index_capacity ui)"
    using skip go by simp
qed

lemma UpdateView_keeps_handle:
  assumes "UpdateView commands io ui = Inr ui'"
  shows "vertex_buffer ui = Some b \<Longrightarrow> \<not> (renders commands io ui \<and> vb_vertexCount b < TotalVtxCount commands)
           \<Longrightarrow> map_option vb_handle (vertex_buffer ui') = Some (vb_handle b)"
    and "index_buffer ui = Some c \<Longrightarrow> \<not> (renders commands io ui \<and> ib_indexCount c < TotalIdxCount commands)
           \<Longrightarrow> map_option ib_handle (index_buffer ui') = Some (ib_handle c)"
proof -
  let ?r = "rebuild_buffers (rv_flag commands ui) (ri_flag commands ui) commands
               (the (engine ui)) (warned io (frame_start io ui))"
  have skip: "vertex_buffer ui' = vertex_buffer ui \<and> index_buffer ui' = index_buffer ui"
    if "\<not> renders commands io ui"
  proof -
    from that consider "engine ui = None" | "display_zero io"
      | "engine ui \<noteq> None" "\<not> display_zero io" "CmdLists commands = []"
      by (auto simp: renders_def)
    then show ?thesis
    proof cases
      case 1 with assms show ?thesis by (simp add: UpdateView_no_engine)
    next
      case 2 with assms show ?thesis by (simp add: UpdateView_display_zero)
    next
      case 3 with assms show ?thesis by (auto simp: UpdateView_no_lists)
    qed
  qed
  have b: "build_renderables commands
       (float_to_int (fmul (v2_y (DisplaySize io)) (v2_y (DisplayFramebufferScale io))))
       (fst ?r) (snd ?r) = Inr ui'" if "renders commands io ui"
    using assms by (simp add: UpdateView_renders [OF that])
  show "map_option vb_handle (vertex_buffer ui') = Some (vb_handle b)"
    if v: "vertex_buffer ui = Some b"
      and n: "\<not> (renders commands io ui \<and> vb_vertexCount b < TotalVtxCount commands)"
  proof (cases "renders commands io ui")
    case False
    with skip v show ?thesis by simp
  next
    case True
    with n v have "\<not> rv_flag commands ui" by (simp add: rv_flag_def vertex_capacity_def)
    then have "vertex_buffer (snd ?r) = vertex_buffer ui" by (rule swapped_vertex(3))
    with build_renderables_keeps(1) [OF b [OF True]] v show ?thesis by simp
  qed
  show "map_option ib_handle (index_buffer ui') = Some (ib_handle c)"
    if v: "index_buffer ui = Some c"
      and n: "\<not> (renders commands io ui \<and> ib_indexCount c < TotalIdxCount commands)"
  proof (cases "renders commands io ui")
    case False
    with skip v show ?thesis by simp
  next
    case True
    with n v have "\<not> ri_flag commands ui" by (simp add: ri_flag_def index_capacity_def)
    then have "index_buffer (snd ?r) = index_buffer ui" by (rule swapped_index(3))
    with build_renderables_keeps(3) [OF b [OF True]] v show ?thesis by simp
  qed
qed

subsection \<open>The stored indices as numbers\<close>

lemma unat_shift16: "unat ((x :: 16 word) + of_nat off) = (unat x + off) mod 2 ^ 16"
proof -
  have "unat (x + of_nat off) = (unat x + unat (of_nat off :: 16 word)) mod 2 ^ 16"
    by (simp add: unat_word_ariths)
  also have "\<dots> = (unat x + off mod 2 ^ 16) mod 2 ^ 16"
    by (simp add: unat_of_nat)
  also have "\<dots> = (unat x + off) mod 2 ^ 16"
    by (simp add: mod_add_right_eq)
  finally show ?thesis .
qed

lemma stored_indices_mod:
  "map unat (stored_indices off dls) = map (\<lambda>n. n mod 2 ^ 16) (shifted_indices off dls)"
  by (induction dls arbitrary: off) (simp_all add: unat_shift16 comp_def)

lemma shifted_indices_range:
  "(\<forall>l \<in> set dls. \<forall>x \<in> set (IdxBuffer l). unat x < length (VtxBuffer l)) \<Longrightarrow>
   \<forall>n \<in> set (shifted_indices off dls). off \<le> n \<and> n < off + total_vertices dls"
proof (induction dls arbitrary: off)
  case Nil
  then show ?case by simp
next
  case (Cons l dls)
  have tv: "total_vertices (l # dls) = length (VtxBuffer l) + total_vertices dls"
    by (simp add: total_vertices_def)
  have rest: "\<forall>n \<in> set (shifted_indices (off + length (VtxBuffer l)) dls).
      off + length (VtxBuffer l) \<le> n \<and> n < off + length (VtxBuffer l) + total_vertices dls"
    using Cons.IH [of "off + length (VtxBuffer l)"] Cons.prems by simp
  have first: "\<forall>x \<in> set (IdxBuffer l). unat x < length (VtxBuffer l)"
    using Cons.prems by simp
  show ?case
  proof
    fix n assume "n \<in> set (shifted_indices off (l # dls))"
    then consider x where "x \<in> set (IdxBuffer l)" "n = unat x + off"
      | "n \<in> set (shifted_indices (off + length (VtxBuffer l)) dls)"
      by auto
    then show "off \<le> n \<and> n < off + total_vertices (l # dls)"
    proof cases
      case 1
      with first tv show ?thesis by fastforce
    next
      case 2
      with rest tv show ?thesis by fastforce
    qed
  qed
qed

lemma stored_indices_range:
  assumes "\<forall>l \<in> set dls. \<forall>x \<in> set (IdxBuffer l). unat x < length (VtxBuffer l)"
  shows "\<forall>x \<in> set (stored_indices off dls). unat x < off + total_vertices dls"
proof
  fix x assume "x \<in> set (stored_indices off dls)"
  then have "unat x \<in> set (map unat (stored_indices off dls))" by simp
  then obtain n where n: "n \<in> set (shifted_indices off dls)" "unat x = n mod 2 ^ 16"
    unfolding stored_indices_mod by auto
  from shifted_indices_range [OF assms, of off] n(1) have "n < off + total_vertices dls" by simp
  moreover have "n mod 2 ^ 16 \<le> n" by simp
  ultimately show "unat x < off + total_vertices dls" using n(2) by simp
qed

lemma stored_indices_exact:
  assumes "\<forall>l \<in> set dls. \<forall>x \<in> set (IdxBuffer l). unat x < length (VtxBuffer l)"
    and "off + total_vertices dls \<le> 2 ^ 16"
  shows "map unat (stored_indices off dls) = shifted_indices off dls"
proof -
  have "n mod 2 ^ 16 = n" if "n \<in> set (shifted_indices off dls)" for n
  proof -
    from shifted_indices_range [OF assms(1), of off] that have "n < off + total_vertices dls" by simp
    with assms(2) show ?thesis by simp
  qed
  then have "map (\<lambda>n. n mod 2 ^ 16) (shifted_indices off dls) = shifted_indices off dls"
    by (simp add: map_idI)
  then show ?thesis by (simp add: stored_indices_mod)
qed

lemma stored_indices_first:
  "take (length (IdxBuffer l)) (stored_indices 0 (l # dls)) = IdxBuffer l"
  by simp

subsection \<open>A frame that renders well-formed draw data\<close>

lemma UpdateView_ok:
  assumes r: "renders commands io ui" and wf: "well_formed commands"
    and inv: "ui_inv ui" and m: "material ui \<noteq> 0"
  shows "\<exists>ui'. UpdateView commands io ui = Inr ui' \<and>
     take (total_vertices (CmdLists commands)) (vertex_data ui') = concat (map VtxBuffer (CmdLists commands)) \<and>
     take (total_indices (CmdLists commands)) (index_data ui') = stored_indices 0 (CmdLists commands) \<and>
     (total_vertices (CmdLists commands) \<noteq> 0 \<longrightarrow>
        map_option vb_data (vertex_buffer ui') = Some (concat (map VtxBuffer (CmdLists commands)))) \<and>
     (total_indices (CmdLists commands) \<noteq> 0 \<longrightarrow>
        map_option ib_data (index_buffer ui') = Some (stored_indices 0 (CmdLists commands))) \<and>
     ui_inv ui' \<and> material ui' = material ui"
proof -
  let ?L = "CmdLists commands"
  let ?hp = "float_to_int (fmul (v2_y (DisplaySize io)) (v2_y (DisplayFramebufferScale io)))"
  let ?r = "rebuild_buffers (rv_flag commands ui) (ri_flag commands ui) commands
               (the (engine ui)) (warned io (frame_start io ui))"
  have tv: "TotalVtxCount commands = total_vertices ?L" and ti: "TotalIdxCount commands = total_indices ?L"
    using wf by (simp_all add: well_formed_def)
  have lv: "length (vertex_data (snd ?r)) = vertex_capacity (snd ?r)"
    and li: "length (index_data (snd ?r)) = index_capacity (snd ?r)"
    using inv by (simp_all add: swapped_vertex(2) swapped_index(2))
  have v: "total_vertices ?L \<le> length (vertex_data (snd ?r))"
    unfolding lv swapped_vertex(1) tv by simp
  have i: "total_indices ?L \<le> length (index_data (snd ?r))"
    unfolding li swapped_index(1) ti by simp
  have mm: "material (snd ?r) \<noteq> 0 \<or>
     sum_list (map (\<lambda>l. length (CmdBuffer l)) ?L) \<le> length (material_instances (snd ?r))"
    using m by (simp add: rebuild_buffers_rest)
  from build_renderables_ok [OF v i mm, of ?hp "fst ?r"]
  obtain ui' where ui': "build_renderables commands ?hp (fst ?r) (snd ?r) = Inr ui'"
    "vertex_data ui' = splice (vertex_data (snd ?r)) 0 (concat (map VtxBuffer ?L))"
    "index_data ui' = splice (index_data (snd ?r)) 0 (stored_indices 0 ?L)"
    "vertex_buffer ui' =
       (if total_vertices ?L \<noteq> 0
        then map_option (\<lambda>b. b\<lparr>vb_data := concat (map VtxBuffer ?L)\<rparr>) (vertex_buffer (snd ?r))
        else vertex_buffer (snd ?r))"
    "index_buffer ui' =
       (if total_indices ?L \<noteq> 0
        then map_option (\<lambda>b. b\<lparr>ib_data := stored_indices 0 ?L\<rparr>) (index_buffer (snd ?r))
        else index_buffer (snd ?r))"
    by blast
  have u: "UpdateView commands io ui = Inr ui'" using ui'(1) by (simp add: UpdateView_renders [OF r])
  have t1: "take (total_vertices ?L) (vertex_data ui') = concat (map VtxBuffer ?L)"
    unfolding ui'(2)
    using take_splice [of 0 "concat (map VtxBuffer ?L)" "vertex_data (snd ?r)"] v
    by (simp add: length_concat_VtxBuffer)
  have t2: "take (total_indices ?L) (index_data ui') = stored_indices 0 ?L"
    unfolding ui'(3)
    using take_splice [of 0 "stored_indices 0 ?L" "index_data (snd ?r)"] i
    by (simp add: length_stored_indices)
  obtain b where b: "vertex_buffer (snd ?r) = Some b" using swapped_vertex(4) [of commands ui io] by auto
  obtain c where c: "index_buffer (snd ?r) = Some c" using swapped_index(4) [of commands ui io] by auto
  have d1: "total_vertices ?L \<noteq> 0 \<longrightarrow> map_option vb_data (vertex_buffer ui') = Some (concat (map VtxBuffer ?L))"
    unfolding ui'(4) b by simp
  have d2: "total_indices ?L \<noteq> 0 \<longrightarrow> map_option ib_data (index_buffer ui') = Some (stored_indices 0 ?L)"
    unfolding ui'(5) c by simp
  have "vertex_capacity ui' = vertex_capacity (snd ?r)" "index_capacity ui' = index_capacity (snd ?r)"
    using build_renderables_keeps(2,4) [OF ui'(1)] by (simp_all add: capacity_via_count)
  moreover have "length (vertex_data ui') = length (vertex_data (snd ?r))"
    unfolding ui'(2) using v by (simp add: length_concat_VtxBuffer)
  moreover have "length (index_data ui') = length (index_data (snd ?r))"
    unfolding ui'(3) using i by (simp add: length_stored_indices)
  ultimately have inv': "ui_inv ui'" using lv li by (simp add: ui_inv_def)
  have m': "material ui' = material ui"
    using build_renderables_keeps(5) [OF ui'(1)] by (simp add: rebuild_buffers_rest)
  show ?thesis using u t1 t2 d1 d2 inv' m' by blast
qed

lemma UpdateView_engine:
  assumes "UpdateView commands io ui = Inr ui'"
  shows "engine ui' = None \<longleftrightarrow> engine ui = None"
proof (cases "renders commands io ui")
  case True
  let ?r = "rebuild_buffers (rv_flag commands ui) (ri_flag commands ui) commands
               (the (engine ui)) (warned io (frame_start io ui))"
  from assms have "build_renderables commands
       (float_to_int (fmul (v2_y (DisplaySize io)) (v2_y (DisplayFramebufferScale io))))
       (fst ?r) (snd ?r) = Inr ui'"
    by (simp add: UpdateView_renders [OF True])
  from build_renderables_keeps(6) [OF this] True show ?thesis by (auto simp: renders_def)
next
  case False
  then consider "engine ui = None" | "display_zero io"
    | "engine ui \<noteq> None" "\<not> display_zero io" "CmdLists commands = []"
    by (auto simp: renders_def)
  then show ?thesis
  proof cases
    case 1 with assms show ?thesis by (simp add: UpdateView_no_engine)
  next
    case 2 with assms show ?thesis by (simp add: UpdateView_display_zero)
  next
    case 3 with assms show ?thesis by (auto simp: UpdateView_no_lists)
  qed
qed

lemma UpdateView_total:
  assumes wf: "well_formed commands" and inv: "ui_inv ui" and m: "material ui \<noteq> 0"
  shows "\<exists>ui'. UpdateView commands io ui = Inr ui' \<and> ui_inv ui' \<and> material ui' = material ui"
proof (cases "renders commands io ui")
  case True
  from UpdateView_ok [OF True wf inv m] show ?thesis by blast
next
  case False
  then consider "engine ui = None" | "display_zero io"
    | "engine ui \<noteq> None" "\<not> display_zero io" "CmdLists commands = []"
    by (auto simp: renders_def)
  then show ?thesis
  proof cases
    case 1 with inv show ?thesis by (simp add: UpdateView_no_engine)
  next
    case 2 with inv show ?thesis by (simp add: UpdateView_display_zero)
  next
    case 3 with inv show ?thesis
      by (simp add: UpdateView_no_lists ui_inv_def vertex_capacity_def index_capacity_def)
  qed
qed

subsection \<open>Runs of frames\<close>

lemma run_frames_total:
  "\<forall>f \<in> set fs. well_formed (fst f) \<Longrightarrow> ui_inv ui \<Longrightarrow> material ui \<noteq> 0 \<Longrightarrow>
   \<exists>ui'. run_frames fs ui = Inr ui'"
proof (induction fs arbitrary: ui)
  case Nil
  then show ?case by simp
next
  case (Cons f fs)
  obtain commands io where f: "f = (commands, io)" by (cases f)
  with Cons.prems have "well_formed commands" by simp
  from UpdateView_total [OF this Cons.prems(2,3), of io]
  obtain u where u: "UpdateView commands io ui = Inr u" "ui_inv u" "material u \<noteq> 0"
    using Cons.prems(3) by auto
  from Cons.IH [OF _ u(2,3)] Cons.prems(1) show ?case using f u(1) by simp
qed

lemma run_frames_capacity:
  "run_frames fs ui = Inr ui' \<Longrightarrow> engine ui \<noteq> None \<Longrightarrow>
   vertex_capacity ui' = high_water TotalVtxCount fs (vertex_capacity ui) \<and>
   index_capacity ui' = high_water TotalIdxCount fs (index_capacity ui)"
proof (induction fs arbitrary: ui)
  case Nil
  then show ?case by simp
next
  case (Cons f fs)
  obtain commands io where f: "f = (commands, io)" by (cases f)
  from Cons.prems(1) f obtain u where u: "UpdateView commands io ui = Inr u" "run_frames fs u = Inr ui'"
    by (auto split: sum.splits)
  have e: "engine u \<noteq> None" using UpdateView_engine [OF u(1)] Cons.prems(2) by simp
  have r: "renders commands io ui \<longleftrightarrow> \<not> (display_zero io \<or> CmdLists commands = [])"
    using Cons.prems(2) by (auto simp: renders_def)
  from Cons.IH [OF u(2) e] UpdateView_capacity [OF u(1)] r f show ?case by simp
qed

lemma high_water_mono: "cap \<le> high_water demand fs cap"
proof (induction fs arbitrary: cap)
  case Nil
  then show ?case by simp
next
  case (Cons f fs)
  obtain commands io where f: "f = (commands, io)" by (cases f)
  have "cap \<le> (if display_zero io \<or> CmdLists commands = [] then cap else max cap (demand commands))"
    by simp
  also have "\<dots> \<le> high_water demand fs \<dots>" by (rule Cons.IH)
  finally show ?case using f by simp
qed

lemma run_frames_mono:
  "run_frames fs ui = Inr ui' \<Longrightarrow>
   vertex_capacity ui \<le> vertex_capacity ui' \<and> index_capacity ui \<le> index_capacity ui'"
proof (induction fs arbitrary: ui)
  case Nil
  then show ?case by simp
next
  case (Cons f fs)
  obtain commands io where f: "f = (commands, io)" by (cases f)
  from Cons.prems(1) f obtain u where u: "UpdateView commands io ui = Inr u" "run_frames fs u = Inr ui'"
    by (auto split: sum.splits)
  from UpdateView_capacity [OF u(1)] have "vertex_capacity ui \<le> vertex_capacity u"
    "index_capacity ui \<le> index_capacity u" by (simp_all split: if_splits)
  with Cons.IH [OF u(2)] show ?case by simp
qed

subsection \<open>Degenerate frames\<close>

text \<open>
  Claim C8. With a display size of zero \<open>UpdateView\<close> returns the object as it was. With a
  display size that is not zero and no command list it returns, without a fault, the
  object with the viewport and the projection set and no renderable: buffers, snapshot
  vectors, material instances and engine are as before.
\<close>

theorem C8_degenerate_frames:
  "(display_zero io \<longrightarrow> UpdateView commands io ui = Inr ui)
   \<and> (engine ui \<noteq> None \<and> \<not> display_zero io \<and> CmdLists commands = [] \<longrightarrow>
        UpdateView commands io ui = Inr (frame_start io ui) \<and>
        renderable (frame_start io ui) = None \<and>
        vertex_buffer (frame_start io ui) = vertex_buffer ui \<and>
        index_buffer (frame_start io ui) = index_buffer ui \<and>
        vertex_data (frame_start io ui) = vertex_data ui \<and>
        index_data (frame_start io ui) = index_data ui \<and>
        material_instances (frame_start io ui) = material_instances ui \<and>
        engine (frame_start io ui) = engine ui)"
  by (simp add: UpdateView_display_zero UpdateView_no_lists)

lemma example_facts:
  "display_zero minimized_io" "\<not> display_zero example_io"
  "CmdLists empty_commands = []" "engine (Ui_ctor e m) = Some e"
  by (simp_all add: display_zero_def minimized_io_def example_io_def empty_commands_def Ui_ctor_def)

theorem C8_witness:
  "UpdateView example_commands minimized_io (Ui_ctor example_engine 1) = Inr (Ui_ctor example_engine 1)
   \<and> UpdateView empty_commands example_io (Ui_ctor example_engine 1)
       = Inr ((Ui_ctor example_engine 1)\<lparr>viewport := Some (200, 200),
               projection := Some (Finite 200, Finite 200)\<rparr>)"
  using C8_degenerate_frames [of minimized_io example_commands "Ui_ctor example_engine 1"]
    C8_degenerate_frames [of example_io empty_commands "Ui_ctor example_engine 1"]
    example_facts round_float_of_int [of 200]
  by (simp add: frame_start_def example_io_def Ui_ctor_def trunc_toward_zero_def)

subsection \<open>Buffer capacities\<close>

lemma UpdateView_no_swap:
  assumes u: "UpdateView commands io ui = Inr ui'"
    and n: "\<not> (renders commands io ui \<and> (rv_flag commands ui \<or> ri_flag commands ui))"
    and e: "engine ui = Some eng"
  shows "\<exists>eng'. engine ui' = Some eng' \<and> destroyed eng' = destroyed eng \<and>
           fence_waits eng' = fence_waits eng"
proof (cases "renders commands io ui")
  case True
  with n have f: "rv_flag commands ui = False" "ri_flag commands ui = False" by simp_all
  from u have "build_renderables commands
       (float_to_int (fmul (v2_y (DisplaySize io)) (v2_y (DisplayFramebufferScale io))))
       eng (warned io (frame_start io ui)) = Inr ui'"
    unfolding UpdateView_renders [OF True] f rebuild_buffers_none using e by simp
  from build_renderables_keeps(6) [OF this] show ?thesis .
next
  case False
  then consider "display_zero io" | "\<not> display_zero io" "CmdLists commands = []"
    using e by (auto simp: renders_def)
  then show ?thesis
  proof cases
    case 1 with u e show ?thesis by (simp add: UpdateView_display_zero)
  next
    case 2 with u e show ?thesis by (auto simp: UpdateView_no_lists)
  qed
qed

lemma UpdateView_empty:
  assumes "CmdLists commands = []"
  shows "\<exists>u. UpdateView commands io ui = Inr u \<and> vertex_buffer u = vertex_buffer ui \<and>
           index_buffer u = index_buffer ui \<and> engine u = engine ui"
proof -
  consider "engine ui = None" | "display_zero io" | "engine ui \<noteq> None" "\<not> display_zero io"
    by blast
  then show ?thesis
  proof cases
    case 1 then show ?thesis by (simp add: UpdateView_no_engine)
  next
    case 2 then show ?thesis by (simp add: UpdateView_display_zero)
  next
    case 3 with assms show ?thesis by (simp add: UpdateView_no_lists)
  qed
qed

text \<open>
  Claim C7. A call of \<open>UpdateView\<close> never lowers the capacity of the vertex or the index
  buffer. A frame that reaches the buffers leaves each capacity at the larger of its old
  value and the frame's total; a buffer that exists keeps its handle unless the frame
  reaches the buffers with a total above its capacity, and when no buffer is swapped the
  engine destroys nothing and waits for no fence. A frame with no command list leaves both
  buffers and the engine as they were. Over a run of frames the capacities never decrease
  and end at the high-water mark of the frames that reached the buffers; a run of
  well-formed frames, from an object whose snapshot vectors match its buffers and whose
  material is not null, returns without a fault.
\<close>

theorem C7_capacity_never_shrinks:
  "(UpdateView commands io ui = Inr ui1 \<longrightarrow>
      vertex_capacity ui \<le> vertex_capacity ui1 \<and> index_capacity ui \<le> index_capacity ui1 \<and>
      vertex_capacity ui1 =
        (if renders commands io ui then max (vertex_capacity ui) (TotalVtxCount commands)
         else vertex_capacity ui) \<and>
      index_capacity ui1 =
        (if renders commands io ui then max (index_capacity ui) (TotalIdxCount commands)
         else index_capacity ui) \<and>
      (\<forall>b. vertex_buffer ui = Some b \<and>
            \<not> (renders commands io ui \<and> vb_vertexCount b < TotalVtxCount commands) \<longrightarrow>
            map_option vb_handle (vertex_buffer ui1) = Some (vb_handle b)) \<and>
      (\<forall>c. index_buffer ui = Some c \<and>
            \<not> (renders commands io ui \<and> ib_indexCount c < TotalIdxCount commands) \<longrightarrow>
            map_option ib_handle (index_buffer ui1) = Some (ib_handle c)) \<and>
      (\<forall>eng. engine ui = Some eng \<and>
            \<not> (renders commands io ui \<and> (rv_flag commands ui \<or> ri_flag commands ui)) \<longrightarrow>
            (\<exists>eng'. engine ui1 = Some eng' \<and> destroyed eng' = destroyed eng \<and>
                    fence_waits eng' = fence_waits eng)))
   \<and> (CmdLists commands = [] \<longrightarrow>
        (\<exists>u. UpdateView commands io ui = Inr u \<and> vertex_buffer u = vertex_buffer ui \<and>
             index_buffer u = index_buffer ui \<and> engine u = engine ui))
   \<and> (run_frames fs ui = Inr ui2 \<longrightarrow>
        vertex_capacity ui \<le> vertex_capacity ui2 \<and> index_capacity ui \<le> index_capacity ui2)
   \<and> (run_frames fs ui = Inr ui2 \<and> engine ui \<noteq> None \<longrightarrow>
        vertex_capacity ui2 = high_water TotalVtxCount fs (vertex_capacity ui) \<and>
        index_capacity ui2 = high_water TotalIdxCount fs (index_capacity ui))
   \<and> ((\<forall>f \<in> set fs. well_formed (fst f)) \<and> ui_inv ui \<and> material ui \<noteq> 0 \<longrightarrow>
        (\<exists>u. run_frames fs ui = Inr u))"
proof (intro conjI impI allI)
  assume u: "UpdateView commands io ui = Inr ui1"
  from UpdateView_capacity [OF u]
  show "vertex_capacity ui1 =
        (if renders commands io ui then max (vertex_capacity ui) (TotalVtxCount commands)
         else vertex_capacity ui)"
    and "index_capacity ui1 =
        (if renders commands io ui then max (index_capacity ui) (TotalIdxCount commands)
         else index_capacity ui)"
    by simp_all
  from UpdateView_capacity [OF u]
  show "vertex_capacity ui \<le> vertex_capacity ui1" "index_capacity ui \<le> index_capacity ui1"
    by (simp_all split: if_splits)
next
  fix b
  assume "UpdateView commands io ui = Inr ui1"
    and "vertex_buffer ui = Some b \<and>
            \<not> (renders commands io ui \<and> vb_vertexCount b < TotalVtxCount commands)"
  then show "map_option vb_handle (vertex_buffer ui1) = Some (vb_handle b)"
    using UpdateView_keeps_handle(1) [of commands io ui ui1 b] by blast
next
  fix c
  assume "UpdateView commands io ui = Inr ui1"
    and "index_buffer ui = Some c \<and>
            \<not> (renders commands io ui \<and> ib_indexCount c < TotalIdxCount commands)"
  then show "map_option ib_handle (index_buffer ui1) = Some (ib_handle c)"
    using UpdateView_keeps_handle(2) [of commands io ui ui1 c] by blast
next
  fix eng
  assume "UpdateView commands io ui = Inr ui1"
    and "engine ui = Some eng \<and>
            \<not> (renders commands io ui \<and> (rv_flag commands ui \<or> ri_flag commands ui))"
  then show "\<exists>eng'. engine ui1 = Some eng' \<and> destroyed eng' = destroyed eng \<and>
                    fence_waits eng' = fence_waits eng"
    using UpdateView_no_swap [of commands io ui ui1 eng] by blast
next
  assume "CmdLists commands = []"
  then show "\<exists>u. UpdateView commands io ui = Inr u \<and> vertex_buffer u = vertex_buffer ui \<and>
             index_buffer u = index_buffer ui \<and> engine u = engine ui"
    by (rule UpdateView_empty)
next
  assume "run_frames fs ui = Inr ui2"
  from run_frames_mono [OF this]
  show "vertex_capacity ui \<le> vertex_capacity ui2" "index_capacity ui \<le> index_capacity ui2"
    by simp_all
next
  assume a: "run_frames fs ui = Inr ui2 \<and> engine ui \<noteq> None"
  from run_frames_capacity [of fs ui ui2] a
  show "vertex_capacity ui2 = high_water TotalVtxCount fs (vertex_capacity ui)"
    "index_capacity ui2 = high_water TotalIdxCount fs (index_capacity ui)"
    by simp_all
next
  assume "(\<forall>f \<in> set fs. well_formed (fst f)) \<and> ui_inv ui \<and> material ui \<noteq> 0"
  then show "\<exists>u. run_frames fs ui = Inr u"
    using run_frames_total [of fs ui] by blast
qed

lemma example_well_formed:
  "well_formed example_commands" "well_formed small_commands" "well_formed empty_commands"
  by (simp_all add: well_formed_def example_commands_def small_commands_def empty_commands_def
      total_vertices_def total_indices_def example_list_def)

lemma Ui_ctor_inv: "ui_inv (Ui_ctor e m)"
  by (simp add: ui_inv_def Ui_ctor_def vertex_capacity_def index_capacity_def)

theorem C7_witness:
  "map_sum id vertex_capacity
     (run_frames [(example_commands, example_io), (small_commands, example_io),
                  (empty_commands, example_io), (example_commands, minimized_io)]
        (Ui_ctor example_engine 1)) = Inr 8
   \<and> map_sum id index_capacity
     (run_frames [(example_commands, example_io), (small_commands, example_io),
                  (empty_commands, example_io), (example_commands, minimized_io)]
        (Ui_ctor example_engine 1)) = Inr 12"
proof -
  let ?fs = "[(example_commands, example_io), (small_commands, example_io),
              (empty_commands, example_io), (example_commands, minimized_io)]"
  let ?ui = "Ui_ctor example_engine 1"
  have wf: "\<forall>f \<in> set ?fs. well_formed (fst f)" by (simp add: example_well_formed)
  have m: "material ?ui \<noteq> 0" by (simp add: Ui_ctor_def)
  from C7_capacity_never_shrinks [of example_commands example_io ?ui ?ui ?fs ?ui] wf Ui_ctor_inv m
  obtain u where u: "run_frames ?fs ?ui = Inr u" by blast
  have e: "engine ?ui \<noteq> None" by (simp add: Ui_ctor_def)
  from C7_capacity_never_shrinks [of example_commands example_io ?ui ?ui ?fs u] u e
  have "vertex_capacity u = high_water TotalVtxCount ?fs (vertex_capacity ?ui)"
    "index_capacity u = high_water TotalIdxCount ?fs (index_capacity ?ui)"
    by blast+
  then have "vertex_capacity u = 8" "index_capacity u = 12"
    by (simp_all add: example_facts example_commands_def small_commands_def empty_commands_def
        vertex_capacity_def index_capacity_def Ui_ctor_def)
  with u show ?thesis by simp
qed

subsection \<open>The shared vertex and index arrays\<close>

text \<open>
  What holds for well-formed draw data of \<open>K \<ge> 1\<close> lists, on a frame that reaches the
  buffers. \<open>UpdateView\<close> returns without a fault; the first \<open>\<Sum>Vk\<close> entries of the vertex
  snapshot are the lists' vertices one list after the other, the first \<open>\<Sum>Ik\<close> entries of the
  index snapshot are the stored indices, and these two ranges are what is uploaded (when
  not empty). The first list's indices are stored as they are. Each stored index is the
  raw index plus the vertex offset of its list, cut to the 16 bits of \<open>ImDrawIdx\<close>: that
  sum itself as long as \<open>\<Sum>Vk \<le> 65536\<close>.
\<close>

lemma UpdateView_shared_buffers:
  "renders commands io ui \<and> well_formed commands \<and> ui_inv ui \<and> material ui \<noteq> 0 \<longrightarrow>
     (\<exists>ui'. UpdateView commands io ui = Inr ui' \<and>
        take (total_vertices (CmdLists commands)) (vertex_data ui')
          = concat (map VtxBuffer (CmdLists commands)) \<and>
        take (total_indices (CmdLists commands)) (index_data ui')
          = stored_indices 0 (CmdLists commands) \<and>
        (total_vertices (CmdLists commands) \<noteq> 0 \<longrightarrow>
           map_option vb_data (vertex_buffer ui') = Some (concat (map VtxBuffer (CmdLists commands)))) \<and>
        (total_indices (CmdLists commands) \<noteq> 0 \<longrightarrow>
           map_option ib_data (index_buffer ui') = Some (stored_indices 0 (CmdLists commands))))
     \<and> length (concat (map VtxBuffer (CmdLists commands))) = total_vertices (CmdLists commands)
     \<and> length (stored_indices 0 (CmdLists commands)) = total_indices (CmdLists commands)
     \<and> (\<forall>x \<in> set (stored_indices 0 (CmdLists commands)). unat x < total_vertices (CmdLists commands))
     \<and> map unat (stored_indices 0 (CmdLists commands))
          = map (\<lambda>n. n mod 2 ^ 16) (shifted_indices 0 (CmdLists commands))
     \<and> (total_vertices (CmdLists commands) \<le> 2 ^ 16 \<longrightarrow>
          map unat (stored_indices 0 (CmdLists commands)) = shifted_indices 0 (CmdLists commands))
     \<and> (\<forall>l rest. CmdLists commands = l # rest \<longrightarrow>
          take (length (IdxBuffer l)) (stored_indices 0 (CmdLists commands)) = IdxBuffer l)"
proof (intro impI)
  assume a: "renders commands io ui \<and> well_formed commands \<and> ui_inv ui \<and> material ui \<noteq> 0"
  let ?L = "CmdLists commands"
  from a have rng: "\<forall>l \<in> set ?L. \<forall>x \<in> set (IdxBuffer l). unat x < length (VtxBuffer l)"
    by (simp add: well_formed_def)
  from a UpdateView_ok [of commands io ui]
  have 1: "\<exists>ui'. UpdateView commands io ui = Inr ui' \<and>
        take (total_vertices ?L) (vertex_data ui') = concat (map VtxBuffer ?L) \<and>
        take (total_indices ?L) (index_data ui') = stored_indices 0 ?L \<and>
        (total_vertices ?L \<noteq> 0 \<longrightarrow>
           map_option vb_data (vertex_buffer ui') = Some (concat (map VtxBuffer ?L))) \<and>
        (total_indices ?L \<noteq> 0 \<longrightarrow>
           map_option ib_data (index_buffer ui') = Some (stored_indices 0 ?L))"
    by blast
  have 2: "\<forall>x \<in> set (stored_indices 0 ?L). unat x < total_vertices ?L"
    using stored_indices_range [OF rng, of 0] by simp
  have 3: "total_vertices ?L \<le> 2 ^ 16 \<longrightarrow> map unat (stored_indices 0 ?L) = shifted_indices 0 ?L"
    using stored_indices_exact [OF rng, of 0] by simp
  have 4: "\<forall>l rest. ?L = l # rest \<longrightarrow> take (length (IdxBuffer l)) (stored_indices 0 ?L) = IdxBuffer l"
    by simp
  from 1 2 3 4 show "(\<exists>ui'. UpdateView commands io ui = Inr ui' \<and>
        take (total_vertices ?L) (vertex_data ui') = concat (map VtxBuffer ?L) \<and>
        take (total_indices ?L) (index_data ui') = stored_indices 0 ?L \<and>
        (total_vertices ?L \<noteq> 0 \<longrightarrow>
           map_option vb_data (vertex_buffer ui') = Some (concat (map VtxBuffer ?L))) \<and>
        (total_indices ?L \<noteq> 0 \<longrightarrow>
           map_option ib_data (index_buffer ui') = Some (stored_indices 0 ?L)))
     \<and> length (concat (map VtxBuffer ?L)) = total_vertices ?L
     \<and> length (stored_indices 0 ?L) = total_indices ?L
     \<and> (\<forall>x \<in> set (stored_indices 0 ?L). unat x < total_vertices ?L)
     \<and> map unat (stored_indices 0 ?L) = map (\<lambda>n. n mod 2 ^ 16) (shifted_indices 0 ?L)
     \<and> (total_vertices ?L \<le> 2 ^ 16 \<longrightarrow> map unat (stored_indices 0 ?L) = shifted_indices 0 ?L)
     \<and> (\<forall>l rest. ?L = l # rest \<longrightarrow> take (length (IdxBuffer l)) (stored_indices 0 ?L) = IdxBuffer l)"
    by (simp only: length_concat_VtxBuffer length_stored_indices stored_indices_mod simp_thms)
qed

lemma example_renders:
  "renders example_commands example_io (Ui_ctor e m)" "renders big_commands example_io (Ui_ctor e m)"
  by (simp_all add: renders_def example_facts example_commands_def big_commands_def)

lemma UpdateView_shared_buffers_example:
  "map_sum id (map_option ib_data \<circ> index_buffer)
     (UpdateView example_commands example_io (Ui_ctor example_engine 1))
     = Inr (Some [0, 1, 2, 0, 2, 3, 4, 5, 6, 4, 6, 7])
   \<and> map_sum id (map_option (length \<circ> vb_data) \<circ> vertex_buffer)
     (UpdateView example_commands example_io (Ui_ctor example_engine 1)) = Inr (Some 8)"
proof -
  have m: "material (Ui_ctor example_engine 1) \<noteq> 0" by (simp add: Ui_ctor_def)
  have tv: "total_vertices (CmdLists example_commands) = 8"
    and ti: "total_indices (CmdLists example_commands) = 12"
    by (simp_all add: example_commands_def example_list_def total_vertices_def total_indices_def)
  have st: "stored_indices 0 (CmdLists example_commands) = [0, 1, 2, 0, 2, 3, 4, 5, 6, 4, 6, 7]"
    by (simp add: example_commands_def example_list_def)
  from UpdateView_shared_buffers [of example_commands example_io "Ui_ctor example_engine 1"]
    example_renders(1) example_well_formed(1) Ui_ctor_inv m
  obtain ui' where u: "UpdateView example_commands example_io (Ui_ctor example_engine 1) = Inr ui'"
    "map_option vb_data (vertex_buffer ui') = Some (concat (map VtxBuffer (CmdLists example_commands)))"
    "map_option ib_data (index_buffer ui') = Some (stored_indices 0 (CmdLists example_commands))"
    unfolding tv ti by auto
  from u(2) have "map_option (length \<circ> vb_data) (vertex_buffer ui') = Some 8"
    using tv by (auto simp: length_concat_VtxBuffer)
  with u(1,3) st show ?thesis by simp
qed

lemma big_well_formed: "well_formed big_commands"
  by (simp add: well_formed_def big_commands_def total_vertices_def total_indices_def)

text \<open>
  Claim C3. The claim fails on the code by a defect of the re-indexing loop: it adds the
  vertex offset to each raw index and stores the sum in an \<open>ImDrawIdx\<close> of 16 bits. With
  two lists of 40000 vertices (draw data of 80000 vertices, well-formed by
  \<open>big_well_formed\<close>), index 30000 of the second list is to become 70000, as the claim
  says, and the index buffer holds 4464: a vertex of the first list.
\<close>

theorem C3_index_cut_to_16_bits:
  "total_vertices (CmdLists big_commands) = 80000
   \<and> shifted_indices 0 (CmdLists big_commands) = [0, 70000]
   \<and> map_sum id (map_option ib_data \<circ> index_buffer)
        (UpdateView big_commands example_io (Ui_ctor example_engine 1)) = Inr (Some [0, 4464])"
proof -
  have m: "material (Ui_ctor example_engine 1) \<noteq> 0" by (simp add: Ui_ctor_def)
  have ti: "total_indices (CmdLists big_commands) \<noteq> 0"
    by (simp add: big_commands_def total_indices_def)
  have tv: "total_vertices (CmdLists big_commands) = 80000"
    by (simp add: big_commands_def total_vertices_def)
  have st: "stored_indices 0 (CmdLists big_commands) = [0, 4464]"
    by (simp add: big_commands_def)
  from UpdateView_ok [OF example_renders(2) big_well_formed Ui_ctor_inv m] ti
  obtain ui' where u: "UpdateView big_commands example_io (Ui_ctor example_engine 1) = Inr ui'"
    "map_option ib_data (index_buffer ui') = Some (stored_indices 0 (CmdLists big_commands))"
    by auto
  have "shifted_indices 0 (CmdLists big_commands) = [0, 70000]"
    by (simp add: big_commands_def)
  with u st tv show ?thesis by simp
qed

end

